theory Spec2Isabelle
  imports Complex_Main "HOL-Library.Word"
begin

section \<open>Data model\<close>

text \<open>
  Modelled from the spec: logic.h, which declares the tile symbols \<open>TILE_*\<close>, the
  movement results \<open>STATUS_*\<close> and \<open>struct Player\<close>, is not among the source files.
  The spec (section 3) lists eight tile variants; they are the constructors below, under
  the names logic.cpp uses, and pairwise different as the variants are. A cell of the \<open>char **\<close> map can
  hold any character, so \<open>TILE_OTHER\<close> stands for a character that is none of the
  eight symbols; logic.cpp treats all such characters alike.
\<close>

datatype tile =
    TILE_OPEN | TILE_PLAYER | TILE_TREASURE | TILE_AMULET
  | TILE_MONSTER | TILE_PILLAR | TILE_DOOR | TILE_EXIT
  | TILE_OTHER char

text \<open>
  Modelled from the spec: the \<open>STATUS_*\<close> constants of logic.h, the results of
  \<open>doPlayerMove\<close>, are the six move outcomes of the spec's section 3.
\<close>

datatype status =
  STATUS_STAY | STATUS_MOVE | STATUS_TREASURE | STATUS_AMULET | STATUS_LEAVE | STATUS_ESCAPE

text \<open>
  Modelled from the spec: \<open>struct Player\<close> of logic.h has the fields logic.cpp
  uses, all of type \<open>int\<close>. Rows and columns are kept as integers, since the code
  only compares them and moves them by one next to an index of the map; the treasure
  counter is only compared with zero and incremented, and is kept as the 32-bit machine
  word it is (\<open>+\<close> wraps, \<open><s\<close> is the signed order).
\<close>

record Player =
  row :: int
  col :: int
  treasure :: "32 word"

text \<open>
  The map is a \<open>char **\<close>: an array of rows, each an array of cells. A pointer is
  either \<open>nullptr\<close> or points to a grid. What C++ leaves undefined or answers with an
  exception is a fault of the model: an index outside the array it is applied to, a
  null pointer that is dereferenced, and \<open>new T[n]\<close> with a negative \<open>n\<close>.
\<close>

type_synonym grid = "tile list list"

datatype 'a ptr = nullptr | Ptr 'a

datatype fault = OutOfBounds | NullPointer | BadArrayLength

definition and_then :: "fault + 'a \<Rightarrow> ('a \<Rightarrow> fault + 'b) \<Rightarrow> fault + 'b" where
  "and_then x f = (case x of Inl e \<Rightarrow> Inl e | Inr v \<Rightarrow> f v)"

text \<open>\<open>cell m r c\<close> reads \<open>map[r][c]\<close>, \<open>store m r c v\<close> is \<open>map[r][c] = v\<close>.\<close>

definition cell :: "grid \<Rightarrow> int \<Rightarrow> int \<Rightarrow> fault + tile" where
  "cell m r c =
     (if 0 \<le> r \<and> r < int (length m) \<and> 0 \<le> c \<and> c < int (length (m ! nat r))
      then Inr (m ! nat r ! nat c) else Inl OutOfBounds)"

definition store :: "grid \<Rightarrow> int \<Rightarrow> int \<Rightarrow> tile \<Rightarrow> fault + grid" where
  "store m r c v =
     (if 0 \<le> r \<and> r < int (length m) \<and> 0 \<le> c \<and> c < int (length (m ! nat r))
      then Inr (m[nat r := (m ! nat r)[nat c := v]]) else Inl OutOfBounds)"

text \<open>
  The invariant of the spec's Map: \<open>maxRow\<close> rows of \<open>maxCol\<close> cells each.
\<close>

definition valid_map :: "grid \<Rightarrow> int \<Rightarrow> int \<Rightarrow> bool" where
  "valid_map m maxRow maxCol \<longleftrightarrow>
     0 \<le> maxCol \<and> int (length m) = maxRow \<and> list_all (\<lambda>cells. int (length cells) = maxCol) m"

section \<open>doPlayerMove\<close>

text \<open>
  The map and the player are passed by reference; the model returns the status together
  with the map and the player as the call leaves them. \<open>nextRow\<close> and \<open>nextCol\<close>
  are passed by value, so the assignments to them in the first branch are not visible
  to the caller.
\<close>

definition doPlayerMove ::
  "grid \<Rightarrow> int \<Rightarrow> int \<Rightarrow> Player \<Rightarrow> int \<Rightarrow> int \<Rightarrow> fault + (status \<times> grid \<times> Player)" where
  "doPlayerMove map' maxRow maxCol player nextRow nextCol =
     (if nextRow \<ge> maxRow \<or> nextRow < 0 \<or> nextCol \<ge> maxCol \<or> nextCol < 0
      then Inr (STATUS_STAY, map', player)
      else and_then (cell map' nextRow nextCol) (\<lambda>nextTile.
        if nextTile = TILE_PILLAR \<or> nextTile = TILE_MONSTER
        then Inr (STATUS_STAY, map', player)
        else
          let tempStatus = STATUS_MOVE;
              tempStatus = (if nextTile = TILE_DOOR then STATUS_LEAVE else tempStatus)
          in
          if nextTile = TILE_EXIT \<and> treasure player = 0
          then Inr (STATUS_STAY, map', player)
          else
            let tempStatus =
                  (if nextTile = TILE_EXIT \<and> 0 <s treasure player
                   then STATUS_ESCAPE else tempStatus);
                tempStatus = (if nextTile = TILE_AMULET then STATUS_AMULET else tempStatus);
                player =
                  (if nextTile = TILE_TREASURE
                   then player\<lparr>treasure := treasure player + 1\<rparr> else player);
                tempStatus =
                  (if nextTile = TILE_TREASURE then STATUS_TREASURE else tempStatus);
                cr = row player;
                cc = col player
            in
            and_then (store map' cr cc TILE_OPEN) (\<lambda>map'.
              let player = player\<lparr>row := nextRow, col := nextCol\<rparr> in
              and_then (store map' (row player) (col player) TILE_PLAYER) (\<lambda>map'.
                Inr (tempStatus, map', player)))))"

section \<open>Loops\<close>

text \<open>
  \<open>for (int i = lo; i < hi; i++) body\<close>, over a state \<open>s\<close>; a fault in the body
  ends the loop.
\<close>

function for_range :: "int \<Rightarrow> int \<Rightarrow> (int \<Rightarrow> 's \<Rightarrow> fault + 's) \<Rightarrow> 's \<Rightarrow> fault + 's" where
  "for_range i n body s =
     (if i < n
      then (case body i s of Inl e \<Rightarrow> Inl e | Inr s' \<Rightarrow> for_range (i + 1) n body s')
      else Inr s)"
  by pat_completeness auto
termination
  by (relation "measure (\<lambda>(i, n, body, s). nat (n - i))") auto

declare for_range.simps [simp del]

section \<open>doMonsterAttack\<close>

text \<open>
  \<open>int dir[4][2] = {{1, 0}, {-1, 0}, {0, 1}, {0, -1}}\<close>; \<open>dir_at i\<close> reads \<open>dir[i]\<close>.
\<close>

definition dir :: "(int \<times> int) list" where
  "dir = [(1, 0), (- 1, 0), (0, 1), (0, - 1)]"

definition dir_at :: "int \<Rightarrow> fault + (int \<times> int)" where
  "dir_at i = (if 0 \<le> i \<and> i < 4 then Inr (dir ! nat i) else Inl OutOfBounds)"

text \<open>
  The body of the \<open>while\<close> loop at a cell \<open>(r, c)\<close> inside the bounds, up to the
  two increments: \<open>None\<close> is the \<open>break\<close> at a pillar, \<open>Some m'\<close> the map with
  which the loop goes on.
\<close>

definition scan_cell :: "int \<times> int \<Rightarrow> grid \<Rightarrow> int \<Rightarrow> int \<Rightarrow> fault + grid option" where
  "scan_cell d m r c =
     and_then (cell m r c) (\<lambda>t.
       if t = TILE_PILLAR then Inr None
       else if t = TILE_MONSTER
       then and_then (store m (r - fst d) (c - snd d) TILE_MONSTER) (\<lambda>m.
            and_then (store m r c TILE_OPEN) (\<lambda>m. Inr (Some m)))
       else Inr (Some m))"

text \<open>The \<open>while\<close> loop of direction \<open>i\<close>, entered at \<open>(r, c)\<close>.\<close>

function scan_ray :: "int \<Rightarrow> int \<Rightarrow> int \<Rightarrow> grid \<Rightarrow> int \<Rightarrow> int \<Rightarrow> fault + grid" where
  "scan_ray i maxRow maxCol m r c =
     (if r < maxRow \<and> r \<ge> 0 \<and> c < maxCol \<and> c \<ge> 0
      then (case dir_at i of
              Inl e \<Rightarrow> Inl e
            | Inr d \<Rightarrow>
                (case scan_cell d m r c of
                   Inl e \<Rightarrow> Inl e
                 | Inr None \<Rightarrow> Inr m
                 | Inr (Some m') \<Rightarrow> scan_ray i maxRow maxCol m' (r + fst d) (c + snd d)))
      else Inr m)"
  by pat_completeness auto
termination
proof (relation "measure (\<lambda>(i, maxRow, maxCol, m, r, c).
    nat (if i = 0 then maxRow - r else if i = 1 then r + 1
         else if i = 2 then maxCol - c else c + 1))")
  show "wf (measure (\<lambda>(i, maxRow, maxCol, m, r, c).
    nat (if i = 0 then maxRow - r else if i = 1 then r + 1
         else if i = 2 then maxCol - c else c + 1)))"
    by simp
next
  fix i maxRow maxCol :: int and m :: grid and r c :: int and d :: "int \<times> int"
    and x :: "grid option" and m' :: grid
  assume inb: "r < maxRow \<and> 0 \<le> r \<and> c < maxCol \<and> 0 \<le> c" and d: "dir_at i = Inr d"
  from d have "i = 0 \<or> i = 1 \<or> i = 2 \<or> i = 3"
    by (auto simp: dir_at_def split: if_splits)
  then show "((i, maxRow, maxCol, m', r + fst d, c + snd d), (i, maxRow, maxCol, m, r, c))
    \<in> measure (\<lambda>(i, maxRow, maxCol, m, r, c).
        nat (if i = 0 then maxRow - r else if i = 1 then r + 1
             else if i = 2 then maxCol - c else c + 1))"
    using inb d by (auto simp: dir_at_def dir_def)
qed

declare scan_ray.simps [simp del]

text \<open>
  The configurations \<open>(map, r, c)\<close> in which the \<open>while\<close> loop of direction \<open>i\<close>
  tests its condition, when it is entered in the first one: each is reached from the
  one before by one run of the loop body that did not \<open>break\<close>.
\<close>

inductive scan_reaches :: "int \<Rightarrow> int \<Rightarrow> int \<Rightarrow> grid \<times> int \<times> int \<Rightarrow> grid \<times> int \<times> int \<Rightarrow> bool"
  for i :: int and maxRow :: int and maxCol :: int and s :: "grid \<times> int \<times> int" where
  entered: "scan_reaches i maxRow maxCol s s"
| iterated:
    "scan_reaches i maxRow maxCol s (m, r, c) \<Longrightarrow>
     r < maxRow \<and> r \<ge> 0 \<and> c < maxCol \<and> c \<ge> 0 \<Longrightarrow>
     dir_at i = Inr d \<Longrightarrow>
     scan_cell d m r c = Inr (Some m') \<Longrightarrow>
     scan_reaches i maxRow maxCol s (m', r + fst d, c + snd d)"

text \<open>
  The body of the \<open>for\<close> loop: the \<open>while\<close> loop of direction \<open>i\<close>, entered
  at the cell next to the player.
\<close>

definition scan_from :: "Player \<Rightarrow> int \<Rightarrow> int \<Rightarrow> int \<Rightarrow> grid \<Rightarrow> fault + grid" where
  "scan_from player maxRow maxCol i map' =
     and_then (dir_at i) (\<lambda>d.
       let r = row player + fst d;
           c = col player + snd d
       in scan_ray i maxRow maxCol map' r c)"

text \<open>
  The player is passed by \<open>const\<close> reference; the model returns it beside the result and
  the map, as it does for the other by-reference parameters.
\<close>

definition doMonsterAttack ::
  "grid \<Rightarrow> int \<Rightarrow> int \<Rightarrow> Player \<Rightarrow> fault + (bool \<times> grid \<times> Player)" where
  "doMonsterAttack map' maxRow maxCol player =
     and_then (for_range 0 4 (scan_from player maxRow maxCol) map')
       (\<lambda>map'. and_then (cell map' (row player) (col player)) (\<lambda>t.
          if t = TILE_MONSTER then Inr (True, map', player) else Inr (False, map', player)))"

section \<open>createMap, deleteMap and resizeMap\<close>

text \<open>
  \<open>new T[n]\<close> throws for a negative \<open>n\<close> and otherwise yields \<open>n\<close> elements with
  indeterminate content, here the parameter \<open>u\<close>. Running out of memory is not
  modelled. \<open>alloc_map\<close> is the allocation the three functions share,
  \<^verbatim>\<open>char **mat = new char *[maxRow];
  for (int i = 0; i < maxRow; i++) mat[i] = new char[maxCol];\<close>
  where a row pointer that is not set yet is an empty row: every access through it is a
  fault.
\<close>

definition new_array :: "'a \<Rightarrow> int \<Rightarrow> fault + 'a list" where
  "new_array u n = (if n < 0 then Inl BadArrayLength else Inr (replicate (nat n) u))"

definition set_row :: "grid \<Rightarrow> int \<Rightarrow> tile list \<Rightarrow> fault + grid" where
  "set_row mat i cells =
     (if 0 \<le> i \<and> i < int (length mat) then Inr (mat[nat i := cells]) else Inl OutOfBounds)"

definition alloc_map :: "tile \<Rightarrow> int \<Rightarrow> int \<Rightarrow> fault + grid" where
  "alloc_map u maxRow maxCol =
     and_then (new_array [] maxRow) (\<lambda>mat.
       for_range 0 maxRow
         (\<lambda>i mat. and_then (new_array u maxCol) (\<lambda>cells. set_row mat i cells))
         mat)"

definition createMap :: "tile \<Rightarrow> int \<Rightarrow> int \<Rightarrow> fault + grid ptr" where
  "createMap u maxRow maxCol =
     (if maxRow < 0 \<or> maxCol < 0 then Inr nullptr
      else
        and_then (alloc_map u maxRow maxCol) (\<lambda>mat.
        and_then
          (for_range 0 maxRow (\<lambda>r. for_range 0 maxCol (\<lambda>c mat. store mat r c TILE_OPEN)) mat)
          (\<lambda>mat. Inr (Ptr mat))))"

text \<open>
  \<open>deleteMap\<close> reads \<open>map[r]\<close> for every \<open>r < maxRow\<close>, frees the rows and the
  array, and sets its two reference parameters.
\<close>

definition deleteMap :: "grid ptr \<Rightarrow> int \<Rightarrow> fault + (grid ptr \<times> int)" where
  "deleteMap map' maxRow =
     (case map' of
        nullptr \<Rightarrow> if 0 < maxRow then Inl NullPointer else Inr (nullptr, 0)
      | Ptr m \<Rightarrow> if maxRow \<le> int (length m) then Inr (nullptr, 0) else Inl OutOfBounds)"

text \<open>\<open>peek map' r c\<close> reads \<open>map[r][c]\<close> through a pointer that may be null.\<close>

definition peek :: "grid ptr \<Rightarrow> int \<Rightarrow> int \<Rightarrow> fault + tile" where
  "peek map' r c = (case map' of nullptr \<Rightarrow> Inl NullPointer | Ptr m \<Rightarrow> cell m r c)"

text \<open>
  The value of an \<open>int\<close> expression whose mathematical value is \<open>x\<close>: 32 bits, two's
  complement, wrapping around.
\<close>

definition int32 :: "int \<Rightarrow> int" where
  "int32 x = (x + 2147483648) mod 4294967296 - 2147483648"

text \<open>
  The condition of the first \<open>if\<close> of \<open>resizeMap\<close>, whose body is empty.
  \<open>INT32_MAX / 2.0\<close> is exact in a double.
\<close>

definition resize_guard :: "grid ptr \<Rightarrow> int \<Rightarrow> int \<Rightarrow> bool" where
  "resize_guard map' maxRow maxCol \<longleftrightarrow>
     map' = nullptr \<or> (2147483647 / 2 :: real) < real_of_int maxRow
     \<or> (2147483647 / 2 :: real) < real_of_int maxCol"

definition resizeMap :: "tile \<Rightarrow> grid ptr \<Rightarrow> int \<Rightarrow> int \<Rightarrow> fault + (grid ptr \<times> int \<times> int)" where
  "resizeMap u map' maxRow maxCol =
     (let nothing = (if resize_guard map' maxRow maxCol then () else ());
          nrl = int32 (maxRow * 2);
          ncl = int32 (maxCol * 2)
      in
      and_then (alloc_map u nrl ncl) (\<lambda>mat.
      and_then
        (for_range 0 maxRow (\<lambda>r. for_range 0 maxCol (\<lambda>c mat.
           and_then (peek map' r c) (\<lambda>t. store mat r c t))) mat) (\<lambda>mat.
      and_then
        (for_range 0 maxRow (\<lambda>r. for_range maxCol ncl (\<lambda>c mat.
           let ca = c - maxCol in
           and_then (peek map' r ca) (\<lambda>t.
             if t \<noteq> TILE_PLAYER then store mat r c t else store mat r c TILE_OPEN))) mat) (\<lambda>mat.
      and_then
        (for_range maxRow nrl (\<lambda>r. for_range 0 maxCol (\<lambda>c mat.
           let ra = r - maxRow in
           and_then (peek map' ra c) (\<lambda>t.
             if t \<noteq> TILE_PLAYER then store mat r c t else store mat r c TILE_OPEN))) mat) (\<lambda>mat.
      and_then
        (for_range maxRow nrl (\<lambda>r. for_range maxCol ncl (\<lambda>c mat.
           let ra = r - maxRow;
               ca = c - maxCol
           in and_then (peek map' ra ca) (\<lambda>t.
             if t \<noteq> TILE_PLAYER then store mat r c t else store mat r c TILE_OPEN))) mat) (\<lambda>mat.
      and_then (deleteMap map' maxRow) (\<lambda>(map', maxRow).
        let maxRow = nrl;
            maxCol = ncl
        in Inr (Ptr mat, maxRow, maxCol))))))))"

section \<open>loadLevel\<close>

text \<open>
  The level file is \<open>None\<close> when it cannot be opened, and its text otherwise. The
  stream \<open>f\<close> is the text not read yet and whether an extraction has failed. The two
  extractions follow the standard library: \<open>f >> x\<close> does nothing once the stream has
  failed; otherwise it skips white space, and fails without touching \<open>x\<close> when nothing
  is left. For an \<open>int\<close> it reads a sign and decimal digits; with no digit it fails
  and stores 0, and a number outside the 32-bit range fails and stores the nearest
  bound. For a \<open>char\<close> it reads one character.
\<close>

record istream =
  rest :: string
  failed :: bool

definition isspace :: "char \<Rightarrow> bool" where
  "isspace ch \<longleftrightarrow> ch \<in> set [CHR '' '', CHR 0x09, CHR 0x0A, CHR 0x0B, CHR 0x0C, CHR 0x0D]"

definition isdigit :: "char \<Rightarrow> bool" where
  "isdigit ch \<longleftrightarrow> ch \<in> set ''0123456789''"

definition digits_value :: "string \<Rightarrow> int" where
  "digits_value ds = foldl (\<lambda>a ch. 10 * a + (of_char ch - 48)) 0 ds"

definition read_int :: "istream \<Rightarrow> int \<Rightarrow> int \<times> istream" where
  "read_int f x =
     (if failed f then (x, f)
      else
        let s = dropWhile isspace (rest f) in
        if s = [] then (x, \<lparr>rest = [], failed = True\<rparr>)
        else
          let s1 = (if hd s = CHR ''-'' \<or> hd s = CHR ''+'' then tl s else s);
              ds = takeWhile isdigit s1;
              s2 = dropWhile isdigit s1;
              n = (if hd s = CHR ''-'' then - digits_value ds else digits_value ds)
          in
          if ds = [] then (0, \<lparr>rest = s2, failed = True\<rparr>)
          else if 2147483647 < n then (2147483647, \<lparr>rest = s2, failed = True\<rparr>)
          else if n < - 2147483648 then (- 2147483648, \<lparr>rest = s2, failed = True\<rparr>)
          else (n, \<lparr>rest = s2, failed = False\<rparr>))"





section \<open>Notions for the statements\<close>

text \<open>
  The player stands on a cell inside the bounds; and, stronger, the cell the player
  stands on holds the player tile and no other cell does (the invariant of the spec's
  section 3).
\<close>

definition in_bounds :: "int \<Rightarrow> int \<Rightarrow> Player \<Rightarrow> bool" where
  "in_bounds maxRow maxCol p \<longleftrightarrow> 0 \<le> row p \<and> row p < maxRow \<and> 0 \<le> col p \<and> col p < maxCol"

definition player_on_map :: "grid \<Rightarrow> Player \<Rightarrow> bool" where
  "player_on_map m p \<longleftrightarrow>
     cell m (row p) (col p) = Inr TILE_PLAYER
     \<and> (\<forall>a b. cell m a b = Inr TILE_PLAYER \<longrightarrow> a = row p \<and> b = col p)"

text \<open>
  \<open>line_cell m d r c k\<close> is the cell \<open>k\<close> steps from \<open>(r, c)\<close> in direction \<open>d\<close>,
  and \<open>on_line d r c a b\<close> says that \<open>(a, b)\<close> is such a cell for some \<open>k \<ge> 0\<close>.
  \<open>sight m d r c k\<close>: the cells 1 to \<open>k\<close> steps away are cells of the map and none
  holds a pillar, so a monster \<open>k\<close> steps away has a line of sight to \<open>(r, c)\<close>.
  \<open>attacked m d r c k\<close> is what the cell \<open>k \<ge> 1\<close> steps away holds once the ray from
  \<open>(r, c)\<close> has been scanned: with a line of sight, the monster that stood one step
  further out, or else an open cell where a monster stood; its old content otherwise.
\<close>

definition line_cell :: "grid \<Rightarrow> int \<times> int \<Rightarrow> int \<Rightarrow> int \<Rightarrow> int \<Rightarrow> fault + tile" where
  "line_cell m d r c k = cell m (r + k * fst d) (c + k * snd d)"

definition on_line :: "int \<times> int \<Rightarrow> int \<Rightarrow> int \<Rightarrow> int \<Rightarrow> int \<Rightarrow> bool" where
  "on_line d r c a b \<longleftrightarrow> (\<exists>k\<ge>0. a = r + k * fst d \<and> b = c + k * snd d)"

definition sight :: "grid \<Rightarrow> int \<times> int \<Rightarrow> int \<Rightarrow> int \<Rightarrow> int \<Rightarrow> bool" where
  "sight m d r c k \<longleftrightarrow>
     (\<forall>l\<in>{1..k}. \<exists>t. line_cell m d r c l = Inr t \<and> t \<noteq> TILE_PILLAR)"

definition attacked :: "grid \<Rightarrow> int \<times> int \<Rightarrow> int \<Rightarrow> int \<Rightarrow> int \<Rightarrow> fault + tile" where
  "attacked m d r c k =
     (if sight m d r c k
      then (if line_cell m d r c (k + 1) = Inr TILE_MONSTER then Inr TILE_MONSTER
            else if line_cell m d r c k = Inr TILE_MONSTER then Inr TILE_OPEN
            else line_cell m d r c k)
      else line_cell m d r c k)"

text \<open>
  What the three copied quadrants of \<open>resizeMap\<close> hold for a tile of the old map.
\<close>

definition no_player :: "tile \<Rightarrow> tile" where
  "no_player t = (if t \<noteq> TILE_PLAYER then t else TILE_OPEN)"

section \<open>Reading and writing cells\<close>

lemma and_then_Inr [simp]: "and_then (Inr v) f = f v"
  by (simp add: and_then_def)

lemma and_then_Inl [simp]: "and_then (Inl e) f = Inl e"
  by (simp add: and_then_def)

lemma and_then_eq_Inr:
  "and_then x f = Inr y \<longleftrightarrow> (\<exists>v. x = Inr v \<and> f v = Inr y)"
  by (cases x) simp_all

lemma cell_Inr_iff:
  "cell m r c = Inr t \<longleftrightarrow>
     0 \<le> r \<and> r < int (length m) \<and> 0 \<le> c \<and> c < int (length (m ! nat r)) \<and> m ! nat r ! nat c = t"
  by (auto simp: cell_def)

lemma store_Inr_iff:
  "store m r c v = Inr m' \<longleftrightarrow>
     0 \<le> r \<and> r < int (length m) \<and> 0 \<le> c \<and> c < int (length (m ! nat r))
     \<and> m' = m[nat r := (m ! nat r)[nat c := v]]"
  by (auto simp: store_def)

lemma store_defined:
  "cell m r c = Inr t \<Longrightarrow> \<exists>m'. store m r c v = Inr m'"
  by (simp add: cell_def store_def split: if_splits)

lemma cell_store:
  assumes "store m r c v = Inr m'"
  shows "cell m' a b = (if a = r \<and> b = c then Inr v else cell m a b)"
proof -
  from assms have r: "0 \<le> r" "r < int (length m)" and c: "0 \<le> c" "c < int (length (m ! nat r))"
    and m': "m' = m[nat r := (m ! nat r)[nat c := v]]"
    by (simp_all add: store_Inr_iff)
  have nr: "nat r < length m" using r by linarith
  have nc: "nat c < length (m ! nat r)" using c by linarith
  show ?thesis
  proof (cases "a = r")
    case True
    then show ?thesis
      using r c nr nc by (auto simp: cell_def m' nth_list_update)
  next
    case False
    then have "0 \<le> a \<Longrightarrow> nat a \<noteq> nat r" using r by linarith
    then show ?thesis
      using False by (auto simp: cell_def m')
  qed
qed

lemma valid_map_store:
  assumes "store m r c v = Inr m'" and "valid_map m maxRow maxCol"
  shows "valid_map m' maxRow maxCol"
proof -
  from assms(1) have m': "m' = m[nat r := (m ! nat r)[nat c := v]]" and r: "0 \<le> r" "r < int (length m)"
    by (simp_all add: store_Inr_iff)
  have nr: "nat r < length m" using r by linarith
  have "\<forall>i < length m'. int (length (m' ! i)) = maxCol"
    using assms(2) nr by (auto simp: valid_map_def m' nth_list_update list_all_length)
  then show ?thesis
    using assms(2) by (simp add: valid_map_def m' list_all_length)
qed

lemma valid_map_cell:
  assumes "valid_map m maxRow maxCol" and "0 \<le> r" and "r < maxRow" and "0 \<le> c" and "c < maxCol"
  shows "\<exists>t. cell m r c = Inr t"
proof -
  have "nat r < length m" using assms by (simp add: valid_map_def) linarith
  then have "int (length (m ! nat r)) = maxCol"
    using assms(1) by (simp add: valid_map_def list_all_length)
  then show ?thesis
    using assms by (simp add: cell_def valid_map_def)
qed

lemma valid_map_cell_bounds:
  assumes "valid_map m maxRow maxCol" and "cell m r c = Inr t"
  shows "0 \<le> r \<and> r < maxRow \<and> 0 \<le> c \<and> c < maxCol"
proof -
  from assms(2) have r: "0 \<le> r" "r < int (length m)" and c: "0 \<le> c" "c < int (length (m ! nat r))"
    by (simp_all add: cell_Inr_iff)
  have "nat r < length m" using r by linarith
  then have "int (length (m ! nat r)) = maxCol"
    using assms(1) by (simp add: valid_map_def list_all_length)
  then show ?thesis
    using assms(1) r c by (simp add: valid_map_def)
qed

section \<open>One ray\<close>

text \<open>
  What one run of the loop body does to the cells, that the scan of a ray returns on a
  valid map, and what it leaves on every cell (\<open>scan_ray_effect\<close>).
\<close>

lemma dir_at_cases:
  assumes "dir_at i = Inr d"
  shows "i = 0 \<and> d = (1, 0) \<or> i = 1 \<and> d = (- 1, 0) \<or> i = 2 \<and> d = (0, 1) \<or> i = 3 \<and> d = (0, - 1)"
proof -
  from assms have "0 \<le> i" "i < 4" and d: "d = dir ! nat i"
    by (auto simp: dir_at_def split: if_splits)
  then have "i = 0 \<or> i = 1 \<or> i = 2 \<or> i = 3" by linarith
  then show ?thesis using d by (auto simp: dir_def)
qed

lemma dir_unit:
  assumes "dir_at i = Inr d"
  shows "(fst d = 0 \<and> (snd d = 1 \<or> snd d = - 1)) \<or> (snd d = 0 \<and> (fst d = 1 \<or> fst d = - 1))"
  using dir_at_cases [OF assms] by auto

lemma scan_cell_pillar:
  "scan_cell d m r c = Inr None \<longleftrightarrow> cell m r c = Inr TILE_PILLAR"
  by (cases "cell m r c") (auto simp: scan_cell_def and_then_def split: sum.splits)

lemma scan_cell_plain:
  assumes "cell m r c = Inr t" and "t \<noteq> TILE_PILLAR" and "t \<noteq> TILE_MONSTER"
  shows "scan_cell d m r c = Inr (Some m)"
  using assms by (simp add: scan_cell_def)

lemma scan_cell_monster:
  assumes "cell m r c = Inr TILE_MONSTER" and "cell m (r - fst d) (c - snd d) = Inr t"
  shows "\<exists>m1 m2. store m (r - fst d) (c - snd d) TILE_MONSTER = Inr m1
     \<and> store m1 r c TILE_OPEN = Inr m2 \<and> scan_cell d m r c = Inr (Some m2)"
proof -
  from store_defined [OF assms(2)] obtain m1
    where m1: "store m (r - fst d) (c - snd d) TILE_MONSTER = Inr m1" by blast
  have "\<exists>t. cell m1 r c = Inr t"
    using cell_store [OF m1, of r c] assms(1) by auto
  then obtain m2 where m2: "store m1 r c TILE_OPEN = Inr m2"
    using store_defined by blast
  show ?thesis using assms(1) m1 m2 by (simp add: scan_cell_def)
qed

lemma scan_cell_Some:
  assumes "scan_cell d m r c = Inr (Some m')"
  shows "(\<exists>t. cell m r c = Inr t \<and> t \<noteq> TILE_PILLAR \<and> t \<noteq> TILE_MONSTER \<and> m' = m)
     \<or> (cell m r c = Inr TILE_MONSTER \<and> (\<exists>m1. store m (r - fst d) (c - snd d) TILE_MONSTER = Inr m1
           \<and> store m1 r c TILE_OPEN = Inr m'))"
  using assms
  by (cases "cell m r c") (auto simp: scan_cell_def and_then_eq_Inr split: if_splits)

lemma scan_cell_cells:
  assumes "scan_cell d m r c = Inr (Some m')"
  shows "cell m' a b =
     (if cell m r c = Inr TILE_MONSTER
      then (if a = r \<and> b = c then Inr TILE_OPEN
            else if a = r - fst d \<and> b = c - snd d then Inr TILE_MONSTER else cell m a b)
      else cell m a b)"
  using scan_cell_Some [OF assms]
proof
  assume "\<exists>t. cell m r c = Inr t \<and> t \<noteq> TILE_PILLAR \<and> t \<noteq> TILE_MONSTER \<and> m' = m"
  then show ?thesis by auto
next
  assume "cell m r c = Inr TILE_MONSTER \<and> (\<exists>m1. store m (r - fst d) (c - snd d) TILE_MONSTER = Inr m1
           \<and> store m1 r c TILE_OPEN = Inr m')"
  then obtain m1 where mon: "cell m r c = Inr TILE_MONSTER"
    and m1: "store m (r - fst d) (c - snd d) TILE_MONSTER = Inr m1"
    and m2: "store m1 r c TILE_OPEN = Inr m'" by blast
  show ?thesis
    by (simp add: cell_store [OF m2] cell_store [OF m1] mon)
qed

lemma scan_cell_valid:
  assumes "scan_cell d m r c = Inr (Some m')" and "valid_map m maxRow maxCol"
  shows "valid_map m' maxRow maxCol"
  using scan_cell_Some [OF assms(1)] assms(2) by (auto intro: valid_map_store)

lemma scan_cell_defined:
  assumes "cell m r c = Inr t" and "cell m (r - fst d) (c - snd d) = Inr t'"
  shows "\<exists>x. scan_cell d m r c = Inr x"
proof (cases "t = TILE_MONSTER")
  case True
  then show ?thesis using scan_cell_monster [of m r c d t'] assms by blast
next
  case False
  then show ?thesis using assms(1) by (simp add: scan_cell_def)
qed

lemma scan_ray_outside:
  "\<not> (r < maxRow \<and> r \<ge> 0 \<and> c < maxCol \<and> c \<ge> 0) \<Longrightarrow> scan_ray i maxRow maxCol m r c = Inr m"
  by (subst scan_ray.simps) auto

lemma scan_ray_break:
  "r < maxRow \<and> r \<ge> 0 \<and> c < maxCol \<and> c \<ge> 0 \<Longrightarrow> dir_at i = Inr d
    \<Longrightarrow> scan_cell d m r c = Inr None \<Longrightarrow> scan_ray i maxRow maxCol m r c = Inr m"
  by (subst scan_ray.simps) auto

lemma scan_ray_next:
  "r < maxRow \<and> r \<ge> 0 \<and> c < maxCol \<and> c \<ge> 0 \<Longrightarrow> dir_at i = Inr d
    \<Longrightarrow> scan_cell d m r c = Inr (Some m')
    \<Longrightarrow> scan_ray i maxRow maxCol m r c = scan_ray i maxRow maxCol m' (r + fst d) (c + snd d)"
  by (subst scan_ray.simps) auto

lemma scan_ray_total:
  assumes "valid_map m maxRow maxCol" and "dir_at i = Inr d"
    and "0 \<le> r - fst d \<and> r - fst d < maxRow \<and> 0 \<le> c - snd d \<and> c - snd d < maxCol"
  shows "\<exists>m'. scan_ray i maxRow maxCol m r c = Inr m' \<and> valid_map m' maxRow maxCol"
  using assms
proof (induction i maxRow maxCol m r c rule: scan_ray.induct)
  case (1 i maxRow maxCol m r c)
  show ?case
  proof (cases "r < maxRow \<and> r \<ge> 0 \<and> c < maxCol \<and> c \<ge> 0")
    case False
    then show ?thesis using "1.prems"(1) by (simp add: scan_ray_outside)
  next
    case inb: True
    from valid_map_cell [OF "1.prems"(1)] inb obtain t where t: "cell m r c = Inr t" by blast
    from valid_map_cell [OF "1.prems"(1), of "r - fst d" "c - snd d"] "1.prems"(3)
    obtain t' where t': "cell m (r - fst d) (c - snd d) = Inr t'" by blast
    from scan_cell_defined [OF t t'] obtain x where x: "scan_cell d m r c = Inr x" by blast
    show ?thesis
    proof (cases x)
      case None
      then show ?thesis using scan_ray_break [OF inb "1.prems"(2)] x "1.prems"(1) by simp
    next
      case (Some m2)
      have v2: "valid_map m2 maxRow maxCol"
        using scan_cell_valid x Some "1.prems"(1) by blast
      have "\<exists>m'. scan_ray i maxRow maxCol m2 (r + fst d) (c + snd d) = Inr m' \<and> valid_map m' maxRow maxCol"
        using "1.IH" [OF inb "1.prems"(2) _ _ v2 "1.prems"(2)] x Some inb by simp
      then show ?thesis
        using scan_ray_next [OF inb "1.prems"(2)] x Some by simp
    qed
  qed
qed

lemma line_cell_0 [simp]: "line_cell m d r c 0 = cell m r c"
  by (simp add: line_cell_def)

lemma line_cell_back: "line_cell m d r c (- 1) = cell m (r - fst d) (c - snd d)"
  by (simp add: line_cell_def)

lemma line_cell_shift: "line_cell m d (r + fst d) (c + snd d) j = line_cell m d r c (j + 1)"
  by (simp add: line_cell_def algebra_simps)

lemma line_pos_inj:
  assumes "dir_at i = Inr d"
  shows "r + j * fst d = r + k * fst d \<and> c + j * snd d = c + k * snd d \<longleftrightarrow> j = k"
  using dir_unit [OF assms] by auto

lemma scan_cell_line:
  assumes "scan_cell d m r c = Inr (Some m2)" and "dir_at i = Inr d"
  shows "line_cell m2 d r c j =
     (if cell m r c = Inr TILE_MONSTER \<and> j = 0 then Inr TILE_OPEN
      else if cell m r c = Inr TILE_MONSTER \<and> j = - 1 then Inr TILE_MONSTER
      else line_cell m d r c j)"
proof -
  have a: "r + j * fst d = r \<and> c + j * snd d = c \<longleftrightarrow> j = 0"
    using line_pos_inj [OF assms(2), of r j 0 c] by simp
  have b: "r + j * fst d = r - fst d \<and> c + j * snd d = c - snd d \<longleftrightarrow> j = - 1"
    using line_pos_inj [OF assms(2), of r j "- 1" c] by simp
  show ?thesis
    unfolding line_cell_def scan_cell_cells [OF assms(1)] using a b by auto
qed

lemma Ball_upto_shift:
  fixes k :: int
  assumes "0 \<le> k"
  shows "(\<forall>l\<in>{1..k + 1}. P l) \<longleftrightarrow> P 1 \<and> (\<forall>l\<in>{1..k}. P (l + 1))"
proof
  assume h: "\<forall>l\<in>{1..k + 1}. P l"
  then show "P 1 \<and> (\<forall>l\<in>{1..k}. P (l + 1))" using assms by auto
next
  assume h: "P 1 \<and> (\<forall>l\<in>{1..k}. P (l + 1))"
  show "\<forall>l\<in>{1..k + 1}. P l"
  proof
    fix l assume l: "l \<in> {1..k + 1}"
    show "P l"
    proof (cases "l = 1")
      case True then show ?thesis using h by simp
    next
      case False
      then have "l - 1 \<in> {1..k}" using l by auto
      then have "P (l - 1 + 1)" using h by blast
      then show ?thesis by simp
    qed
  qed
qed

lemma sight_shift:
  assumes "0 \<le> k"
  shows "sight m d r c (k + 1) \<longleftrightarrow>
     (\<exists>t. line_cell m d r c 1 = Inr t \<and> t \<noteq> TILE_PILLAR) \<and> sight m d (r + fst d) (c + snd d) k"
  unfolding sight_def line_cell_shift
  by (subst Ball_upto_shift [OF assms]) simp

lemma sight_first:
  assumes "sight m d r c k" and "1 \<le> k"
  shows "\<exists>t. line_cell m d r c 1 = Inr t \<and> t \<noteq> TILE_PILLAR"
proof -
  have "1 \<in> {1..k}" using assms(2) by simp
  with assms(1) show ?thesis
    unfolding sight_def by blast
qed

lemma sight_cong:
  assumes "\<And>l. 1 \<le> l \<Longrightarrow> line_cell m d r c l = line_cell m2 d r c l"
  shows "sight m d r c k = sight m2 d r c k"
  using assms by (simp add: sight_def)

lemma attacked_blocked:
  assumes "\<not> (\<exists>t. line_cell m d r c 1 = Inr t \<and> t \<noteq> TILE_PILLAR)" and "1 \<le> k"
  shows "attacked m d r c k = line_cell m d r c k"
  using assms sight_first [of m d r c k] by (auto simp: attacked_def)


lemma line_cell_1: "line_cell m d r c 1 = cell m (r + fst d) (c + snd d)"
  by (simp add: line_cell_def)

lemma scan_ray_effect:
  assumes "valid_map m maxRow maxCol" and "dir_at i = Inr d"
    and "0 \<le> r0 \<and> r0 < maxRow \<and> 0 \<le> c0 \<and> c0 < maxCol"
    and "r = r0 + fst d" and "c = c0 + snd d"
    and "scan_ray i maxRow maxCol m r c = Inr m'"
  shows "(\<forall>k\<ge>1. line_cell m' d r0 c0 k = attacked m d r0 c0 k)
       \<and> cell m' r0 c0 =
           (if line_cell m d r0 c0 1 = Inr TILE_MONSTER then Inr TILE_MONSTER else cell m r0 c0)
       \<and> (\<forall>a b. \<not> on_line d r0 c0 a b \<longrightarrow> cell m' a b = cell m a b)"
  using assms
proof (induction i maxRow maxCol m r c arbitrary: r0 c0 rule: scan_ray.induct)
  case (1 i maxRow maxCol m r c)
  note valid = "1.prems"(1) and d = "1.prems"(2) and origin = "1.prems"(3)
    and r = "1.prems"(4) and c = "1.prems"(5) and run = "1.prems"(6)
  have first: "line_cell g d r0 c0 1 = cell g r c" for g
    by (simp add: line_cell_1 r c)
  show ?case
  proof (cases "r < maxRow \<and> r \<ge> 0 \<and> c < maxCol \<and> c \<ge> 0")
    case False
    have m': "m' = m"
      using run False by (simp add: scan_ray_outside)
    have nocell: "\<not> (\<exists>t. cell m r c = Inr t)"
      using valid_map_cell_bounds [OF valid, of r c] False by auto
    then have blocked: "\<not> (\<exists>t. line_cell m d r0 c0 1 = Inr t \<and> t \<noteq> TILE_PILLAR)"
      by (simp add: first)
    show ?thesis
      using attacked_blocked [OF blocked] nocell by (simp add: m' first)
  next
    case inb: True
    from valid_map_cell [OF valid] inb obtain t where t: "cell m r c = Inr t"
      by blast
    from valid_map_cell [OF valid, of r0 c0] origin
    obtain t' where "cell m r0 c0 = Inr t'"
      by blast
    then have t': "cell m (r - fst d) (c - snd d) = Inr t'"
      by (simp add: r c)
    from scan_cell_defined [OF t t'] obtain x where x: "scan_cell d m r c = Inr x"
      by blast
    show ?thesis
    proof (cases x)
      case None
      then have pil: "cell m r c = Inr TILE_PILLAR"
        using x scan_cell_pillar by simp
      have m': "m' = m"
        using run scan_ray_break [OF inb d] x None by simp
      have blocked: "\<not> (\<exists>t. line_cell m d r0 c0 1 = Inr t \<and> t \<noteq> TILE_PILLAR)"
        using pil by (simp add: first)
      show ?thesis
        using attacked_blocked [OF blocked] pil by (simp add: m' first)
    next
      case (Some m2)
      have x2: "scan_cell d m r c = Inr (Some m2)"
        using x Some by simp
      have np: "t \<noteq> TILE_PILLAR"
        using x2 t scan_cell_pillar [of d m r c] by auto
      have v2: "valid_map m2 maxRow maxCol"
        using scan_cell_valid [OF x2 valid] .
      have run2: "scan_ray i maxRow maxCol m2 (r + fst d) (c + snd d) = Inr m'"
        using run scan_ray_next [OF inb d x2] by simp
      have origin2: "0 \<le> r \<and> r < maxRow \<and> 0 \<le> c \<and> c < maxCol"
        using inb by simp
      note IH = "1.IH" [OF inb d x Some v2 d origin2 refl refl run2]
      have shift: "line_cell g d r c k = line_cell g d r0 c0 (k + 1)" for g k
        using line_cell_shift [of g d r0 c0 k] by (simp add: r c)
      have line2: "line_cell m2 d r0 c0 k =
         (if cell m r c = Inr TILE_MONSTER \<and> k = 1 then Inr TILE_OPEN
          else if cell m r c = Inr TILE_MONSTER \<and> k = 0 then Inr TILE_MONSTER
          else line_cell m d r0 c0 k)" for k
        using scan_cell_line [OF x2 d, of "k - 1"] by (simp add: shift)
      have keep: "line_cell m2 d r0 c0 k = line_cell m d r0 c0 k" if "2 \<le> k" for k
        using that by (simp add: line2)
      have here: "cell m2 r c = (if cell m r c = Inr TILE_MONSTER then Inr TILE_OPEN else cell m r c)"
        using line2 [of 1] by (simp add: first line_cell_1 r c)
      have IH1: "line_cell m' d r0 c0 (k + 1) = attacked m2 d r c k" if "1 \<le> k" for k
        using IH that by (simp add: shift)
      have IH2: "cell m' r c =
          (if line_cell m2 d r0 c0 2 = Inr TILE_MONSTER then Inr TILE_MONSTER else cell m2 r c)"
        using IH by (simp add: shift)
      have IH3: "cell m' a b = cell m2 a b" if "\<not> on_line d r c a b" for a b
        using IH that by simp
      have sight2: "sight m2 d r c k = sight m d r c k" for k
        by (rule sight_cong) (simp add: shift keep)
      have F1: "line_cell m' d r0 c0 k = attacked m d r0 c0 k" if k: "1 \<le> k" for k
      proof (cases "k = 1")
        case True
        have "sight m d r0 c0 1"
          using t np by (simp add: sight_def first)
        then show ?thesis
          using t by (simp add: True first IH2 attacked_def keep here)
      next
        case False
        define j where "j = k - 1"
        have j: "1 \<le> j" "k = j + 1"
          using k False by (simp_all add: j_def)
        have j0: "0 \<le> j" using j(1) by simp
        have a1: "sight m d r0 c0 (j + 1) \<longleftrightarrow> sight m d r c j"
          using sight_shift [OF j0, of m d r0 c0] t np by (simp add: first r c)
        have a2: "line_cell m2 d r c j = line_cell m d r0 c0 (j + 1)"
          using j(1) by (simp add: shift keep)
        have a3: "line_cell m2 d r c (j + 1) = line_cell m d r0 c0 (j + 1 + 1)"
          using j(1) by (simp add: shift keep)
        have "attacked m2 d r c j = attacked m d r0 c0 (j + 1)"
          unfolding attacked_def sight2 a1 a2 a3 ..
        then show ?thesis
          using IH1 [OF j(1)] j(2) by simp
      qed
      have not_on: "\<not> on_line d r c r0 c0"
      proof
        assume "on_line d r c r0 c0"
        then obtain j where "0 \<le> j" "r0 = r + j * fst d" "c0 = c + j * snd d"
          by (auto simp: on_line_def)
        then have "0 \<le> j" "r0 + (j + 1) * fst d = r0 + 0 * fst d \<and> c0 + (j + 1) * snd d = c0 + 0 * snd d"
          by (simp_all add: r c algebra_simps)
        then show False
          using line_pos_inj [OF d, of r0 "j + 1" 0 c0] by simp
      qed
      have F2: "cell m' r0 c0 =
           (if line_cell m d r0 c0 1 = Inr TILE_MONSTER then Inr TILE_MONSTER else cell m r0 c0)"
        using IH3 [OF not_on] line2 [of 0] by (simp add: first)
      have F3: "cell m' a b = cell m a b" if off: "\<not> on_line d r0 c0 a b" for a b
      proof -
        have 1: "\<not> on_line d r c a b"
        proof
          assume "on_line d r c a b"
          then obtain j where "0 \<le> j" "a = r + j * fst d" "b = c + j * snd d"
            by (auto simp: on_line_def)
          then have "0 \<le> j + 1 \<and> a = r0 + (j + 1) * fst d \<and> b = c0 + (j + 1) * snd d"
            by (simp add: r c algebra_simps)
          then show False
            using off unfolding on_line_def by blast
        qed
        have 2: "\<not> (a = r \<and> b = c)"
        proof
          assume "a = r \<and> b = c"
          then have "0 \<le> (1::int) \<and> a = r0 + 1 * fst d \<and> b = c0 + 1 * snd d"
            by (simp add: r c)
          then show False
            using off unfolding on_line_def by blast
        qed
        have 3: "\<not> (a = r0 \<and> b = c0)"
        proof
          assume "a = r0 \<and> b = c0"
          then have "0 \<le> (0::int) \<and> a = r0 + 0 * fst d \<and> b = c0 + 0 * snd d"
            by simp
          then show False
            using off unfolding on_line_def by blast
        qed
        have "cell m2 a b = cell m a b"
          using 2 3 by (auto simp: scan_cell_cells [OF x2] r c)
        then show ?thesis
          using IH3 [OF 1] by simp
      qed
      show ?thesis
        using F1 F2 F3 by blast
    qed
  qed
qed

section \<open>The four rays\<close>

text \<open>
  The rays of two directions share no cell but the player's, so the four scans compose:
  \<open>doMonsterAttack_effect\<close> says what a call leaves on every cell of the map.
\<close>

lemma for_range_done: "\<not> i < n \<Longrightarrow> for_range i n body s = Inr s"
  by (subst for_range.simps) simp

lemma for_range_step:
  "i < n \<Longrightarrow> for_range i n body s = and_then (body i s) (for_range (i + 1) n body)"
  by (subst for_range.simps) (simp add: and_then_def split: sum.splits)

lemma scan_from_effect:
  assumes "valid_map m maxRow maxCol" and "in_bounds maxRow maxCol p" and "dir_at i = Inr d"
  shows "\<exists>m'. scan_from p maxRow maxCol i m = Inr m' \<and> valid_map m' maxRow maxCol
       \<and> (\<forall>k\<ge>1. line_cell m' d (row p) (col p) k = attacked m d (row p) (col p) k)
       \<and> cell m' (row p) (col p) =
           (if line_cell m d (row p) (col p) 1 = Inr TILE_MONSTER then Inr TILE_MONSTER
            else cell m (row p) (col p))
       \<and> (\<forall>a b. \<not> on_line d (row p) (col p) a b \<longrightarrow> cell m' a b = cell m a b)"
proof -
  have origin: "0 \<le> row p \<and> row p < maxRow \<and> 0 \<le> col p \<and> col p < maxCol"
    using assms(2) by (simp add: in_bounds_def)
  then have behind: "0 \<le> row p + fst d - fst d \<and> row p + fst d - fst d < maxRow
      \<and> 0 \<le> col p + snd d - snd d \<and> col p + snd d - snd d < maxCol"
    by simp
  from scan_ray_total [OF assms(1,3) behind] obtain m'
    where run: "scan_ray i maxRow maxCol m (row p + fst d) (col p + snd d) = Inr m'"
      and v: "valid_map m' maxRow maxCol"
    by blast
  have "scan_from p maxRow maxCol i m = Inr m'"
    using run assms(3) by (simp add: scan_from_def)
  then show ?thesis
    using v scan_ray_effect [OF assms(1,3) origin refl refl run] by blast
qed

lemma other_ray_off_line:
  assumes "dir_at i = Inr d" and "dir_at i' = Inr d'" and "i \<noteq> i'" and "1 \<le> k"
  shows "\<not> on_line d' r c (r + k * fst d) (c + k * snd d)"
  using dir_at_cases [OF assms(1)] dir_at_cases [OF assms(2)] assms(3,4)
  by (auto simp: on_line_def)

lemma attacked_cong:
  assumes "\<And>l. 1 \<le> l \<Longrightarrow> line_cell m d r c l = line_cell m2 d r c l" and "1 \<le> k"
  shows "attacked m d r c k = attacked m2 d r c k"
  using assms by (simp add: attacked_def sight_cong [of m d r c m2])

lemma dir_at_unique: "dir_at i = Inr d \<Longrightarrow> dir_at i = Inr d' \<Longrightarrow> d = d'"
  by simp

lemma dir_at_range: "dir_at i = Inr d \<Longrightarrow> 0 \<le> i \<and> i < 4"
  by (simp add: dir_at_def split: if_splits)

lemma dir_at_defined: "0 \<le> i \<Longrightarrow> i < 4 \<Longrightarrow> \<exists>d. dir_at i = Inr d"
  by (simp add: dir_at_def)


lemma rays_effect:
  assumes "valid_map m maxRow maxCol" and "in_bounds maxRow maxCol p" and "0 \<le> k0"
  shows "\<exists>m'. for_range k0 4 (scan_from p maxRow maxCol) m = Inr m' \<and> valid_map m' maxRow maxCol
       \<and> (\<forall>i d k. k0 \<le> i \<and> dir_at i = Inr d \<and> 1 \<le> k
             \<longrightarrow> line_cell m' d (row p) (col p) k = attacked m d (row p) (col p) k)
       \<and> (\<forall>i d k. i < k0 \<and> dir_at i = Inr d \<and> 1 \<le> k
             \<longrightarrow> line_cell m' d (row p) (col p) k = line_cell m d (row p) (col p) k)
       \<and> cell m' (row p) (col p) =
           (if \<exists>i d. k0 \<le> i \<and> dir_at i = Inr d \<and> line_cell m d (row p) (col p) 1 = Inr TILE_MONSTER
            then Inr TILE_MONSTER else cell m (row p) (col p))
       \<and> (\<forall>a b. (\<forall>i d. dir_at i = Inr d \<longrightarrow> \<not> on_line d (row p) (col p) a b)
             \<longrightarrow> cell m' a b = cell m a b)"
  using assms
proof (induction k0 "4::int" "scan_from p maxRow maxCol" m rule: for_range.induct)
  case (1 i s)
  show ?case
  proof (cases "i < 4")
    case False
    have none: "\<not> (i \<le> j \<and> dir_at j = Inr d \<and> Q)" for j d Q
      using False dir_at_range [of j d] by auto
    show ?thesis
    proof (rule exI [of _ s], intro conjI)
      show "for_range i 4 (scan_from p maxRow maxCol) s = Inr s"
        using False by (simp add: for_range_done)
      show "valid_map s maxRow maxCol"
        by (rule "1.prems"(1))
      show "\<forall>j d k. i \<le> j \<and> dir_at j = Inr d \<and> 1 \<le> k
             \<longrightarrow> line_cell s d (row p) (col p) k = attacked s d (row p) (col p) k"
        using none by blast
      show "\<forall>j d k. j < i \<and> dir_at j = Inr d \<and> 1 \<le> k
             \<longrightarrow> line_cell s d (row p) (col p) k = line_cell s d (row p) (col p) k"
        by simp
      show "cell s (row p) (col p) =
           (if \<exists>j d. i \<le> j \<and> dir_at j = Inr d \<and> line_cell s d (row p) (col p) 1 = Inr TILE_MONSTER
            then Inr TILE_MONSTER else cell s (row p) (col p))"
      proof -
        have "\<not> (\<exists>j d. i \<le> j \<and> dir_at j = Inr d
            \<and> line_cell s d (row p) (col p) 1 = Inr TILE_MONSTER)"
          using none by blast
        then show ?thesis
          by (simp only: if_False)
      qed
      show "\<forall>a b. (\<forall>j d. dir_at j = Inr d \<longrightarrow> \<not> on_line d (row p) (col p) a b)
             \<longrightarrow> cell s a b = cell s a b"
        by simp
    qed
  next
    case True
    from dir_at_defined [OF "1.prems"(3) True] obtain d0 where d0: "dir_at i = Inr d0"
      by blast
    from scan_from_effect [OF "1.prems"(1,2) d0] obtain m1
      where run1: "scan_from p maxRow maxCol i s = Inr m1" and v1: "valid_map m1 maxRow maxCol"
        and ray1: "\<And>k. 1 \<le> k \<Longrightarrow> line_cell m1 d0 (row p) (col p) k = attacked s d0 (row p) (col p) k"
        and own1: "cell m1 (row p) (col p) =
           (if line_cell s d0 (row p) (col p) 1 = Inr TILE_MONSTER then Inr TILE_MONSTER
            else cell s (row p) (col p))"
        and off1: "\<And>a b. \<not> on_line d0 (row p) (col p) a b \<Longrightarrow> cell m1 a b = cell s a b"
      by blast
    have next0: "0 \<le> i + 1"
      using "1.prems"(3) by simp
    from "1.hyps" [OF True run1 v1 "1.prems"(2) next0] obtain m'
      where run: "for_range (i + 1) 4 (scan_from p maxRow maxCol) m1 = Inr m'"
        and v: "valid_map m' maxRow maxCol"
        and later: "\<And>j d k. i + 1 \<le> j \<Longrightarrow> dir_at j = Inr d \<Longrightarrow> 1 \<le> k
             \<Longrightarrow> line_cell m' d (row p) (col p) k = attacked m1 d (row p) (col p) k"
        and earlier: "\<And>j d k. j < i + 1 \<Longrightarrow> dir_at j = Inr d \<Longrightarrow> 1 \<le> k
             \<Longrightarrow> line_cell m' d (row p) (col p) k = line_cell m1 d (row p) (col p) k"
        and own: "cell m' (row p) (col p) =
           (if \<exists>j d. i + 1 \<le> j \<and> dir_at j = Inr d \<and> line_cell m1 d (row p) (col p) 1 = Inr TILE_MONSTER
            then Inr TILE_MONSTER else cell m1 (row p) (col p))"
        and off: "\<And>a b. (\<forall>j d. dir_at j = Inr d \<longrightarrow> \<not> on_line d (row p) (col p) a b)
             \<Longrightarrow> cell m' a b = cell m1 a b"
      by blast
    have other: "line_cell m1 d (row p) (col p) k = line_cell s d (row p) (col p) k"
      if "dir_at j = Inr d" and "j \<noteq> i" and "1 \<le> k" for j d k
      unfolding line_cell_def
      by (rule off1) (rule other_ray_off_line [OF that(1) d0 that(2,3)])
    have total: "for_range i 4 (scan_from p maxRow maxCol) s = Inr m'"
      using run run1 by (simp add: for_range_step [OF True])
    have A: "line_cell m' d (row p) (col p) k = attacked s d (row p) (col p) k"
      if "i \<le> j" and "dir_at j = Inr d" and "1 \<le> k" for j d k
    proof (cases "j = i")
      case True
      then have "d = d0" using that(2) d0 by simp
      then show ?thesis
        using earlier [of i d0 k] d0 ray1 [OF that(3)] that(3) by simp
    next
      case False
      then have "i + 1 \<le> j" using that(1) by simp
      then have "line_cell m' d (row p) (col p) k = attacked m1 d (row p) (col p) k"
        using later that(2,3) by blast
      also have "\<dots> = attacked s d (row p) (col p) k"
        by (rule attacked_cong) (simp_all add: other [OF that(2) False] that(3))
      finally show ?thesis .
    qed
    have B: "line_cell m' d (row p) (col p) k = line_cell s d (row p) (col p) k"
      if "j < i" and "dir_at j = Inr d" and "1 \<le> k" for j d k
    proof -
      have "line_cell m' d (row p) (col p) k = line_cell m1 d (row p) (col p) k"
        using earlier [of j d k] that by simp
      then show ?thesis
        using other [OF that(2) _ that(3)] that(1) by simp
    qed
    have C: "cell m' (row p) (col p) =
           (if \<exists>j d. i \<le> j \<and> dir_at j = Inr d \<and> line_cell s d (row p) (col p) 1 = Inr TILE_MONSTER
            then Inr TILE_MONSTER else cell s (row p) (col p))"
    proof -
      have "(\<exists>j d. i \<le> j \<and> dir_at j = Inr d \<and> line_cell s d (row p) (col p) 1 = Inr TILE_MONSTER)
        \<longleftrightarrow> line_cell s d0 (row p) (col p) 1 = Inr TILE_MONSTER
          \<or> (\<exists>j d. i + 1 \<le> j \<and> dir_at j = Inr d \<and> line_cell m1 d (row p) (col p) 1 = Inr TILE_MONSTER)"
        (is "?L \<longleftrightarrow> ?M \<or> ?R")
      proof
        assume ?L
        then obtain j d where j: "i \<le> j" "dir_at j = Inr d"
          "line_cell s d (row p) (col p) 1 = Inr TILE_MONSTER" by blast
        show "?M \<or> ?R"
        proof (cases "j = i")
          case True
          then show ?thesis using j d0 by simp
        next
          case False
          then have "i + 1 \<le> j" using j(1) by simp
          moreover have "line_cell m1 d (row p) (col p) 1 = Inr TILE_MONSTER"
            using other [OF j(2) False, of 1] j(3) by simp
          ultimately show ?thesis using j(2) by blast
        qed
      next
        assume "?M \<or> ?R"
        then show ?L
        proof
          assume ?M
          then show ?L using d0 by (intro exI [of _ i] exI [of _ d0]) simp
        next
          assume ?R
          then obtain j d where j: "i + 1 \<le> j" "dir_at j = Inr d"
            "line_cell m1 d (row p) (col p) 1 = Inr TILE_MONSTER" by blast
          then have "j \<noteq> i" by simp
          then have "line_cell s d (row p) (col p) 1 = Inr TILE_MONSTER"
            using other [OF j(2), of 1] j(3) by simp
          then show ?L using j(1,2) by (intro exI [of _ j] exI [of _ d]) simp
        qed
      qed
      then show ?thesis
        using own own1 by auto
    qed
    have D: "cell m' a b = cell s a b"
      if "\<forall>j d. dir_at j = Inr d \<longrightarrow> \<not> on_line d (row p) (col p) a b" for a b
      using off [OF that] off1 [of a b] that d0 by simp
    show ?thesis
    proof (rule exI [of _ m'], intro conjI)
      show "for_range i 4 (scan_from p maxRow maxCol) s = Inr m'"
        by (rule total)
      show "valid_map m' maxRow maxCol"
        by (rule v)
      show "\<forall>j d k. i \<le> j \<and> dir_at j = Inr d \<and> 1 \<le> k
             \<longrightarrow> line_cell m' d (row p) (col p) k = attacked s d (row p) (col p) k"
        using A by blast
      show "\<forall>j d k. j < i \<and> dir_at j = Inr d \<and> 1 \<le> k
             \<longrightarrow> line_cell m' d (row p) (col p) k = line_cell s d (row p) (col p) k"
        using B by blast
      show "cell m' (row p) (col p) =
           (if \<exists>j d. i \<le> j \<and> dir_at j = Inr d \<and> line_cell s d (row p) (col p) 1 = Inr TILE_MONSTER
            then Inr TILE_MONSTER else cell s (row p) (col p))"
        by (rule C)
      show "\<forall>a b. (\<forall>j d. dir_at j = Inr d \<longrightarrow> \<not> on_line d (row p) (col p) a b)
             \<longrightarrow> cell m' a b = cell s a b"
        using D by blast
    qed
  qed
qed

lemma doMonsterAttack_effect:
  assumes "valid_map m maxRow maxCol" and "in_bounds maxRow maxCol p"
  shows "\<exists>m'. doMonsterAttack m maxRow maxCol p
           = Inr (cell m' (row p) (col p) = Inr TILE_MONSTER, m', p)
       \<and> for_range 0 4 (scan_from p maxRow maxCol) m = Inr m'
       \<and> valid_map m' maxRow maxCol
       \<and> (\<forall>i d k. dir_at i = Inr d \<and> 1 \<le> k
             \<longrightarrow> line_cell m' d (row p) (col p) k = attacked m d (row p) (col p) k)
       \<and> cell m' (row p) (col p) =
           (if \<exists>i d. dir_at i = Inr d \<and> line_cell m d (row p) (col p) 1 = Inr TILE_MONSTER
            then Inr TILE_MONSTER else cell m (row p) (col p))
       \<and> (\<forall>a b. (\<forall>i d. dir_at i = Inr d \<longrightarrow> \<not> on_line d (row p) (col p) a b)
             \<longrightarrow> cell m' a b = cell m a b)"
proof -
  from rays_effect [OF assms, of 0] obtain m'
    where run: "for_range 0 4 (scan_from p maxRow maxCol) m = Inr m'"
      and v: "valid_map m' maxRow maxCol"
      and A: "\<And>i d k. 0 \<le> i \<Longrightarrow> dir_at i = Inr d \<Longrightarrow> 1 \<le> k
             \<Longrightarrow> line_cell m' d (row p) (col p) k = attacked m d (row p) (col p) k"
      and C: "cell m' (row p) (col p) =
           (if \<exists>i d. 0 \<le> i \<and> dir_at i = Inr d \<and> line_cell m d (row p) (col p) 1 = Inr TILE_MONSTER
            then Inr TILE_MONSTER else cell m (row p) (col p))"
      and D: "\<And>a b. (\<forall>i d. dir_at i = Inr d \<longrightarrow> \<not> on_line d (row p) (col p) a b)
             \<Longrightarrow> cell m' a b = cell m a b"
    by auto
  from valid_map_cell [OF v, of "row p" "col p"] assms(2)
  obtain t where t: "cell m' (row p) (col p) = Inr t"
    by (auto simp: in_bounds_def)
  have res: "doMonsterAttack m maxRow maxCol p
      = Inr (cell m' (row p) (col p) = Inr TILE_MONSTER, m', p)"
    using run t by (simp add: doMonsterAttack_def)
  have pos: "(\<exists>i d. 0 \<le> i \<and> dir_at i = Inr d \<and> Q i d) \<longleftrightarrow> (\<exists>i d. dir_at i = Inr d \<and> Q i d)" for Q
    using dir_at_range by blast
  show ?thesis
  proof (rule exI [of _ m'], intro conjI)
    show "doMonsterAttack m maxRow maxCol p
        = Inr (cell m' (row p) (col p) = Inr TILE_MONSTER, m', p)"
      by (rule res)
    show "for_range 0 4 (scan_from p maxRow maxCol) m = Inr m'"
      by (rule run)
    show "valid_map m' maxRow maxCol"
      by (rule v)
    show "\<forall>i d k. dir_at i = Inr d \<and> 1 \<le> k
             \<longrightarrow> line_cell m' d (row p) (col p) k = attacked m d (row p) (col p) k"
      using A dir_at_range by blast
    show "cell m' (row p) (col p) =
           (if \<exists>i d. dir_at i = Inr d \<and> line_cell m d (row p) (col p) 1 = Inr TILE_MONSTER
            then Inr TILE_MONSTER else cell m (row p) (col p))"
      using C unfolding pos .
    show "\<forall>a b. (\<forall>i d. dir_at i = Inr d \<longrightarrow> \<not> on_line d (row p) (col p) a b)
             \<longrightarrow> cell m' a b = cell m a b"
      using D by blast
  qed
qed

lemma doMonsterAttack_Inr:
  assumes "doMonsterAttack m maxRow maxCol p = Inr (captured, m', p')"
  shows "for_range 0 4 (scan_from p maxRow maxCol) m = Inr m'
     \<and> (captured \<longleftrightarrow> cell m' (row p) (col p) = Inr TILE_MONSTER) \<and> p' = p"
  using assms
  by (auto simp: doMonsterAttack_def and_then_eq_Inr split: if_splits)

section \<open>Moves of the player\<close>

text \<open>
  C7. A move is refused when the target cell is outside the bounds of the map, when it
  holds a pillar or a monster, or when it holds the exit and the player has no treasure:
  \<open>doPlayerMove\<close> then returns \<open>STATUS_STAY\<close>, and the map and the player (row,
  column and treasure) are the ones it was given. The target is any pair
  \<open>(nextRow, nextCol)\<close>, in particular each of the four neighbours of the player.
\<close>

theorem doPlayerMove_blocked_stays:
  assumes "nextRow \<ge> maxRow \<or> nextRow < 0 \<or> nextCol \<ge> maxCol \<or> nextCol < 0
      \<or> cell m nextRow nextCol = Inr TILE_PILLAR
      \<or> cell m nextRow nextCol = Inr TILE_MONSTER
      \<or> (cell m nextRow nextCol = Inr TILE_EXIT \<and> treasure p = 0)"
  shows "doPlayerMove m maxRow maxCol p nextRow nextCol = Inr (STATUS_STAY, m, p)"
proof (cases "nextRow \<ge> maxRow \<or> nextRow < 0 \<or> nextCol \<ge> maxCol \<or> nextCol < 0")
  case True
  then show ?thesis
    by (simp add: doPlayerMove_def)
next
  case False
  with assms have "cell m nextRow nextCol = Inr TILE_PILLAR
      \<or> cell m nextRow nextCol = Inr TILE_MONSTER
      \<or> (cell m nextRow nextCol = Inr TILE_EXIT \<and> treasure p = 0)"
    by blast
  then show ?thesis
    using False by (auto simp: doPlayerMove_def)
qed

theorem doPlayerMove_blocked_stays_witness:
  "doPlayerMove [[TILE_PLAYER, TILE_PILLAR]] 1 2 \<lparr>row = 0, col = 0, treasure = 3\<rparr> 0 1
     = Inr (STATUS_STAY, [[TILE_PLAYER, TILE_PILLAR]], \<lparr>row = 0, col = 0, treasure = 3\<rparr>)
   \<and> doPlayerMove [[TILE_PLAYER, TILE_MONSTER]] 1 2 \<lparr>row = 0, col = 0, treasure = 3\<rparr> 0 1
     = Inr (STATUS_STAY, [[TILE_PLAYER, TILE_MONSTER]], \<lparr>row = 0, col = 0, treasure = 3\<rparr>)
   \<and> doPlayerMove [[TILE_PLAYER, TILE_EXIT]] 1 2 \<lparr>row = 0, col = 0, treasure = 0\<rparr> 0 1
     = Inr (STATUS_STAY, [[TILE_PLAYER, TILE_EXIT]], \<lparr>row = 0, col = 0, treasure = 0\<rparr>)
   \<and> doPlayerMove [[TILE_PLAYER, TILE_OPEN]] 1 2 \<lparr>row = 0, col = 0, treasure = 0\<rparr> (- 1) 0
     = Inr (STATUS_STAY, [[TILE_PLAYER, TILE_OPEN]], \<lparr>row = 0, col = 0, treasure = 0\<rparr>)"
proof -
  have a: "cell [[TILE_PLAYER, TILE_PILLAR]] 0 1 = Inr TILE_PILLAR"
    and b: "cell [[TILE_PLAYER, TILE_MONSTER]] 0 1 = Inr TILE_MONSTER"
    and c: "cell [[TILE_PLAYER, TILE_EXIT]] 0 1 = Inr TILE_EXIT"
    by (simp_all add: cell_def)
  show ?thesis
    using doPlayerMove_blocked_stays [of 1 0 2 1 "[[TILE_PLAYER, TILE_PILLAR]]"
        "\<lparr>row = 0, col = 0, treasure = 3\<rparr>"]
      doPlayerMove_blocked_stays [of 1 0 2 1 "[[TILE_PLAYER, TILE_MONSTER]]"
        "\<lparr>row = 0, col = 0, treasure = 3\<rparr>"]
      doPlayerMove_blocked_stays [of 1 0 2 1 "[[TILE_PLAYER, TILE_EXIT]]"
        "\<lparr>row = 0, col = 0, treasure = 0\<rparr>"]
      doPlayerMove_blocked_stays [of 1 "- 1" 2 0 "[[TILE_PLAYER, TILE_OPEN]]"
        "\<lparr>row = 0, col = 0, treasure = 0\<rparr>"]
      a b c
    by simp
qed

lemma sint_succ:
  fixes w :: "32 word"
  assumes "sint w < 2147483647"
  shows "sint (w + 1) = sint w + 1"
proof -
  have lo: "- (2 ^ 31) \<le> sint w"
    using sint_ge [of w] by simp
  have "sint (w + 1) = signed_take_bit 31 (sint w + 1)"
    by (simp add: sint_word_ariths)
  also have "\<dots> = sint w + 1"
    using lo assms by (intro signed_take_bit_int_eq_self) simp_all
  finally show ?thesis .
qed

text \<open>
  C8, as amended. A move to a cell inside the bounds that holds a treasure, by a player
  who stands on another cell of the map and whose treasure count is below
  \<open>INT32_MAX\<close>, returns \<open>STATUS_TREASURE\<close>; the treasure count, read as the signed
  32-bit integer it is, is one more than before, the player's row and column are those
  of the target, the target cell holds the player, the cell the player left is open, and
  no other cell has changed.
\<close>

theorem doPlayerMove_treasure:
  assumes "0 \<le> nextRow" and "nextRow < maxRow" and "0 \<le> nextCol" and "nextCol < maxCol"
    and "cell m nextRow nextCol = Inr TILE_TREASURE"
    and "cell m (row p) (col p) = Inr t0"
    and "(row p, col p) \<noteq> (nextRow, nextCol)"
    and "sint (treasure p) < 2147483647"
  shows "\<exists>m'. doPlayerMove m maxRow maxCol p nextRow nextCol
        = Inr (STATUS_TREASURE, m', p\<lparr>treasure := treasure p + 1, row := nextRow, col := nextCol\<rparr>)
      \<and> sint (treasure p + 1) = sint (treasure p) + 1
      \<and> cell m' nextRow nextCol = Inr TILE_PLAYER
      \<and> cell m' (row p) (col p) = Inr TILE_OPEN
      \<and> (\<forall>a b. (a, b) \<noteq> (nextRow, nextCol) \<and> (a, b) \<noteq> (row p, col p)
            \<longrightarrow> cell m' a b = cell m a b)"
proof -
  from store_defined [OF assms(6)] obtain m1 where m1: "store m (row p) (col p) TILE_OPEN = Inr m1"
    by blast
  have c1: "cell m1 nextRow nextCol = Inr TILE_TREASURE"
    using cell_store [OF m1, of nextRow nextCol] assms(5,7) by auto
  from store_defined [OF c1] obtain m2 where m2: "store m1 nextRow nextCol TILE_PLAYER = Inr m2"
    by blast
  have run: "doPlayerMove m maxRow maxCol p nextRow nextCol
      = Inr (STATUS_TREASURE, m2, p\<lparr>treasure := treasure p + 1, row := nextRow, col := nextCol\<rparr>)"
    using assms(1-5) m1 m2 by (simp add: doPlayerMove_def Let_def)
  have cells: "cell m2 a b = (if a = nextRow \<and> b = nextCol then Inr TILE_PLAYER
      else if a = row p \<and> b = col p then Inr TILE_OPEN else cell m a b)" for a b
    by (simp add: cell_store [OF m2] cell_store [OF m1])
  have "cell m2 nextRow nextCol = Inr TILE_PLAYER"
    by (simp add: cells)
  moreover have "cell m2 (row p) (col p) = Inr TILE_OPEN"
    using assms(7) by (auto simp: cells)
  moreover have "\<forall>a b. (a, b) \<noteq> (nextRow, nextCol) \<and> (a, b) \<noteq> (row p, col p)
      \<longrightarrow> cell m2 a b = cell m a b"
    by (auto simp: cells)
  moreover have "sint (treasure p + 1) = sint (treasure p) + 1"
    by (rule sint_succ [OF assms(8)])
  ultimately show ?thesis
    using run by blast
qed

theorem doPlayerMove_treasure_witness:
  "\<exists>m'. doPlayerMove [[TILE_PLAYER, TILE_TREASURE]] 1 2 \<lparr>row = 0, col = 0, treasure = 4\<rparr> 0 1
        = Inr (STATUS_TREASURE, m', \<lparr>row = 0, col = 1, treasure = 5\<rparr>)
      \<and> sint (5 :: 32 word) = sint (4 :: 32 word) + 1
      \<and> cell m' 0 1 = Inr TILE_PLAYER \<and> cell m' 0 0 = Inr TILE_OPEN"
proof -
  have a: "cell [[TILE_PLAYER, TILE_TREASURE]] 0 1 = Inr TILE_TREASURE"
    and b: "cell [[TILE_PLAYER, TILE_TREASURE]] 0 0 = Inr TILE_PLAYER"
    by (simp_all add: cell_def)
  show ?thesis
    using doPlayerMove_treasure [of 0 1 1 2 "[[TILE_PLAYER, TILE_TREASURE]]"
        "\<lparr>row = 0, col = 0, treasure = 4\<rparr>" TILE_PLAYER] a b
    by simp blast
qed

text \<open>
  The claim C8 as the spec states it, for every move onto a treasure, fails at the
  largest \<open>int\<close>: \<open>player.treasure++\<close> takes the count from \<open>INT32_MAX\<close> to
  \<open>INT32_MIN\<close>, which is not one more than before.
\<close>

theorem doPlayerMove_treasure_counterexample:
  "doPlayerMove [[TILE_PLAYER, TILE_TREASURE]] 1 2 \<lparr>row = 0, col = 0, treasure = 2147483647\<rparr> 0 1
     = Inr (STATUS_TREASURE, [[TILE_OPEN, TILE_PLAYER]],
         \<lparr>row = 0, col = 1, treasure = 2147483648\<rparr>)
   \<and> sint (2147483647 :: 32 word) = 2147483647
   \<and> sint (2147483648 :: 32 word) = - 2147483648"
  by (simp add: doPlayerMove_def cell_def store_def)

section \<open>The monsters' turn\<close>

lemma sight_mono:
  assumes "sight m d r c k" and "j \<le> k"
  shows "sight m d r c j"
  using assms by (auto simp: sight_def)

lemma in_bounds_of_player_on_map:
  assumes "valid_map m maxRow maxCol" and "player_on_map m p"
  shows "in_bounds maxRow maxCol p"
  using valid_map_cell_bounds [OF assms(1), of "row p" "col p" TILE_PLAYER] assms(2)
  by (simp add: player_on_map_def in_bounds_def)

text \<open>
  C9. Every call of \<open>doMonsterAttack\<close> that returns has run the four ray scans to their
  end, returns the map they leave, and returns \<open>true\<close> exactly when the player's own
  cell holds a monster in that map: the capture check is made once, on the map after the
  fourth scan. On a valid map with the player inside the bounds the call does return.
\<close>

theorem doMonsterAttack_capture_check:
  "(\<forall>captured m' p'. doMonsterAttack m maxRow maxCol p = Inr (captured, m', p')
      \<longrightarrow> for_range 0 4 (scan_from p maxRow maxCol) m = Inr m'
        \<and> (captured \<longleftrightarrow> cell m' (row p) (col p) = Inr TILE_MONSTER))
   \<and> (valid_map m maxRow maxCol \<and> in_bounds maxRow maxCol p
      \<longrightarrow> (\<exists>captured m'. doMonsterAttack m maxRow maxCol p = Inr (captured, m', p)))"
proof (intro conjI allI impI)
  fix captured m' p'
  assume "doMonsterAttack m maxRow maxCol p = Inr (captured, m', p')"
  from doMonsterAttack_Inr [OF this]
  show "for_range 0 4 (scan_from p maxRow maxCol) m = Inr m'"
    and "captured \<longleftrightarrow> cell m' (row p) (col p) = Inr TILE_MONSTER"
    by simp_all
next
  assume "valid_map m maxRow maxCol \<and> in_bounds maxRow maxCol p"
  then show "\<exists>captured m'. doMonsterAttack m maxRow maxCol p = Inr (captured, m', p)"
    using doMonsterAttack_effect [of m maxRow maxCol p] by blast
qed

theorem doMonsterAttack_capture_check_witness:
  "valid_map [[TILE_PLAYER, TILE_MONSTER]] 1 2
   \<and> in_bounds 1 2 \<lparr>row = 0, col = 0, treasure = 0\<rparr>
   \<and> (\<exists>captured m'. doMonsterAttack [[TILE_PLAYER, TILE_MONSTER]] 1 2 \<lparr>row = 0, col = 0, treasure = 0\<rparr>
          = Inr (captured, m', \<lparr>row = 0, col = 0, treasure = 0\<rparr>)
        \<and> for_range 0 4 (scan_from \<lparr>row = 0, col = 0, treasure = 0\<rparr> 1 2) [[TILE_PLAYER, TILE_MONSTER]]
          = Inr m'
        \<and> (captured \<longleftrightarrow> cell m' 0 0 = Inr TILE_MONSTER))"
proof -
  have v: "valid_map [[TILE_PLAYER, TILE_MONSTER]] 1 2"
    by (simp add: valid_map_def)
  have b: "in_bounds 1 2 \<lparr>row = 0, col = 0, treasure = 0\<rparr>"
    by (simp add: in_bounds_def)
  note claim = doMonsterAttack_capture_check [of "[[TILE_PLAYER, TILE_MONSTER]]" 1 2
      "\<lparr>row = 0, col = 0, treasure = 0\<rparr>"]
  from claim v b obtain captured m'
    where run: "doMonsterAttack [[TILE_PLAYER, TILE_MONSTER]] 1 2 \<lparr>row = 0, col = 0, treasure = 0\<rparr>
          = Inr (captured, m', \<lparr>row = 0, col = 0, treasure = 0\<rparr>)"
    by blast
  with claim have "for_range 0 4 (scan_from \<lparr>row = 0, col = 0, treasure = 0\<rparr> 1 2) [[TILE_PLAYER, TILE_MONSTER]]
          = Inr m' \<and> (captured \<longleftrightarrow> cell m' 0 0 = Inr TILE_MONSTER)"
    by simp
  with run v b show ?thesis
    by blast
qed

text \<open>
  C10. \<open>doMonsterAttack\<close> never modifies the player: row, column and treasure count
  after the call are those before it. On a valid map with the player inside the bounds
  the call returns.
\<close>

theorem doMonsterAttack_player_unchanged:
  "(\<forall>captured m' p'. doMonsterAttack m maxRow maxCol p = Inr (captured, m', p')
      \<longrightarrow> row p' = row p \<and> col p' = col p \<and> treasure p' = treasure p)
   \<and> (valid_map m maxRow maxCol \<and> in_bounds maxRow maxCol p
      \<longrightarrow> (\<exists>captured m'. doMonsterAttack m maxRow maxCol p = Inr (captured, m', p)))"
proof (intro conjI allI impI)
  fix captured m' p'
  assume "doMonsterAttack m maxRow maxCol p = Inr (captured, m', p')"
  from doMonsterAttack_Inr [OF this] have "p' = p"
    by simp
  then show "row p' = row p" and "col p' = col p" and "treasure p' = treasure p"
    by simp_all
next
  assume "valid_map m maxRow maxCol \<and> in_bounds maxRow maxCol p"
  then show "\<exists>captured m'. doMonsterAttack m maxRow maxCol p = Inr (captured, m', p)"
    using doMonsterAttack_effect [of m maxRow maxCol p] by blast
qed

theorem doMonsterAttack_player_unchanged_witness:
  "doMonsterAttack [[TILE_PLAYER, TILE_MONSTER]] 1 2 \<lparr>row = 0, col = 0, treasure = 7\<rparr>
     = Inr (True, [[TILE_MONSTER, TILE_OPEN]], \<lparr>row = 0, col = 0, treasure = 7\<rparr>)
   \<and> row \<lparr>row = 0, col = 0, treasure = 7\<rparr> = 0
   \<and> col \<lparr>row = 0, col = 0, treasure = 7\<rparr> = 0
   \<and> treasure \<lparr>row = 0, col = 0, treasure = 7\<rparr> = 7"
proof -
  have v: "valid_map [[TILE_PLAYER, TILE_MONSTER]] 1 2"
    by (simp add: valid_map_def)
  have b: "in_bounds 1 2 \<lparr>row = 0, col = 0, treasure = 7\<rparr>"
    by (simp add: in_bounds_def)
  note claim = doMonsterAttack_player_unchanged [of "[[TILE_PLAYER, TILE_MONSTER]]" 1 2
      "\<lparr>row = 0, col = 0, treasure = 7\<rparr>"]
  from claim v b obtain captured m'
    where run: "doMonsterAttack [[TILE_PLAYER, TILE_MONSTER]] 1 2 \<lparr>row = 0, col = 0, treasure = 7\<rparr>
          = Inr (captured, m', \<lparr>row = 0, col = 0, treasure = 7\<rparr>)"
    by blast
  have "doMonsterAttack [[TILE_PLAYER, TILE_MONSTER]] 1 2 \<lparr>row = 0, col = 0, treasure = 7\<rparr>
     = Inr (True, [[TILE_MONSTER, TILE_OPEN]], \<lparr>row = 0, col = 0, treasure = 7\<rparr>)"
    by code_simp
  then show ?thesis
    using run by simp
qed

text \<open>
  C2, as amended. On a valid map with the player inside the bounds, take a direction
  \<open>d\<close> of \<open>dir\<close> and a distance \<open>k \<ge> 1\<close>. If the cell \<open>k\<close> steps from the player
  holds a monster and has a line of sight (no pillar on the cells 1 to \<open>k\<close>), then after
  the call the cell one step nearer holds a monster, and the cell \<open>k\<close> itself holds the
  monster that stood one step further out, if there was one, and is open otherwise. So
  every monster of the ray with a line of sight advances in the same call, not only the
  nearest. A cell without a line of sight is left as it was: what stands behind a pillar
  does not move.
\<close>

theorem doMonsterAttack_moves_every_monster_in_sight:
  assumes "valid_map m maxRow maxCol" and "in_bounds maxRow maxCol p"
    and "dir_at i = Inr d" and "1 \<le> k"
  shows "\<exists>captured m'. doMonsterAttack m maxRow maxCol p = Inr (captured, m', p)
     \<and> (sight m d (row p) (col p) k \<and> line_cell m d (row p) (col p) k = Inr TILE_MONSTER
          \<longrightarrow> line_cell m' d (row p) (col p) (k - 1) = Inr TILE_MONSTER
            \<and> line_cell m' d (row p) (col p) k =
                (if line_cell m d (row p) (col p) (k + 1) = Inr TILE_MONSTER
                 then Inr TILE_MONSTER else Inr TILE_OPEN))
     \<and> (\<not> sight m d (row p) (col p) k
          \<longrightarrow> line_cell m' d (row p) (col p) k = line_cell m d (row p) (col p) k)"
proof -
  from doMonsterAttack_effect [OF assms(1,2)] obtain m'
    where run: "doMonsterAttack m maxRow maxCol p
           = Inr (cell m' (row p) (col p) = Inr TILE_MONSTER, m', p)"
      and A: "\<And>i d k. dir_at i = Inr d \<Longrightarrow> 1 \<le> k
             \<Longrightarrow> line_cell m' d (row p) (col p) k = attacked m d (row p) (col p) k"
      and C: "cell m' (row p) (col p) =
           (if \<exists>i d. dir_at i = Inr d \<and> line_cell m d (row p) (col p) 1 = Inr TILE_MONSTER
            then Inr TILE_MONSTER else cell m (row p) (col p))"
    by blast
  have at_k: "line_cell m' d (row p) (col p) k = attacked m d (row p) (col p) k"
    using A [OF assms(3,4)] .
  have moved: "line_cell m' d (row p) (col p) (k - 1) = Inr TILE_MONSTER"
    if s: "sight m d (row p) (col p) k" and mon: "line_cell m d (row p) (col p) k = Inr TILE_MONSTER"
  proof (cases "k = 1")
    case True
    have "\<exists>i d. dir_at i = Inr d \<and> line_cell m d (row p) (col p) 1 = Inr TILE_MONSTER"
      using assms(3) mon True by blast
    then have "cell m' (row p) (col p) = Inr TILE_MONSTER"
      using C by (simp only: if_True)
    then show ?thesis
      by (simp add: True)
  next
    case False
    then have k1: "1 \<le> k - 1"
      using assms(4) by simp
    have "sight m d (row p) (col p) (k - 1)"
      using sight_mono [OF s, of "k - 1"] by simp
    then have "attacked m d (row p) (col p) (k - 1) = Inr TILE_MONSTER"
      using mon by (simp add: attacked_def)
    then show ?thesis
      using A [OF assms(3) k1] by simp
  qed
  have left: "line_cell m' d (row p) (col p) k =
        (if line_cell m d (row p) (col p) (k + 1) = Inr TILE_MONSTER
         then Inr TILE_MONSTER else Inr TILE_OPEN)"
    if "sight m d (row p) (col p) k" and "line_cell m d (row p) (col p) k = Inr TILE_MONSTER"
    using that by (simp add: at_k attacked_def)
  have blocked: "line_cell m' d (row p) (col p) k = line_cell m d (row p) (col p) k"
    if "\<not> sight m d (row p) (col p) k"
    using that by (simp add: at_k attacked_def)
  show ?thesis
    using run moved left blocked by blast
qed

theorem doMonsterAttack_moves_every_monster_in_sight_witness:
  "(\<exists>captured m'.
      doMonsterAttack [[TILE_PLAYER, TILE_OPEN, TILE_MONSTER, TILE_OPEN, TILE_MONSTER]] 1 5
          \<lparr>row = 0, col = 0, treasure = 0\<rparr>
        = Inr (captured, m', \<lparr>row = 0, col = 0, treasure = 0\<rparr>)
      \<and> cell m' 0 3 = Inr TILE_MONSTER \<and> cell m' 0 4 = Inr TILE_OPEN)
   \<and> (\<exists>captured m'.
      doMonsterAttack [[TILE_PLAYER, TILE_PILLAR, TILE_MONSTER]] 1 3
          \<lparr>row = 0, col = 0, treasure = 0\<rparr>
        = Inr (captured, m', \<lparr>row = 0, col = 0, treasure = 0\<rparr>)
      \<and> cell m' 0 2 = Inr TILE_MONSTER)"
proof -
  let ?p = "\<lparr>row = 0, col = 0, treasure = 0\<rparr>"
  let ?m = "[[TILE_PLAYER, TILE_OPEN, TILE_MONSTER, TILE_OPEN, TILE_MONSTER]]"
  let ?n = "[[TILE_PLAYER, TILE_PILLAR, TILE_MONSTER]]"
  have d: "dir_at 2 = Inr (0, 1)"
    by (simp add: dir_at_def dir_def)
  have four: "{1..4::int} = {1, 2, 3, 4}" and two: "{1..2::int} = {1, 2}"
    by auto
  have s: "sight ?m (0, 1) 0 0 4"
    by (simp add: sight_def four line_cell_def cell_def)
  have ns: "\<not> sight ?n (0, 1) 0 0 2"
    by (simp add: sight_def two line_cell_def cell_def)
  have 1: "\<exists>captured m'. doMonsterAttack ?m 1 5 ?p = Inr (captured, m', ?p)
      \<and> cell m' 0 3 = Inr TILE_MONSTER \<and> cell m' 0 4 = Inr TILE_OPEN"
    using doMonsterAttack_moves_every_monster_in_sight [of ?m 1 5 ?p 2 "(0, 1)" 4] d s
    by (simp add: valid_map_def in_bounds_def line_cell_def) (simp add: cell_def)
  have 2: "\<exists>captured m'. doMonsterAttack ?n 1 3 ?p = Inr (captured, m', ?p)
      \<and> cell m' 0 2 = Inr TILE_MONSTER"
    using doMonsterAttack_moves_every_monster_in_sight [of ?n 1 3 ?p 2 "(0, 1)" 2] d ns
    by (simp add: valid_map_def in_bounds_def line_cell_def) (simp add: cell_def)
  show ?thesis
    using 1 2 by blast
qed

text \<open>
  The claim C2 as the spec states it (only the nearest monster of a ray advances) fails
  on a row with two monsters: the one four cells from the player moves as well.
\<close>

theorem only_nearest_monster_advances_counterexample:
  "doMonsterAttack [[TILE_PLAYER, TILE_OPEN, TILE_MONSTER, TILE_OPEN, TILE_MONSTER]] 1 5
       \<lparr>row = 0, col = 0, treasure = 0\<rparr>
     = Inr (False, [[TILE_PLAYER, TILE_MONSTER, TILE_OPEN, TILE_MONSTER, TILE_OPEN]],
         \<lparr>row = 0, col = 0, treasure = 0\<rparr>)
   \<and> cell [[TILE_PLAYER, TILE_OPEN, TILE_MONSTER, TILE_OPEN, TILE_MONSTER]] 0 4 = Inr TILE_MONSTER
   \<and> cell [[TILE_PLAYER, TILE_MONSTER, TILE_OPEN, TILE_MONSTER, TILE_OPEN]] 0 4 = Inr TILE_OPEN
   \<and> cell [[TILE_PLAYER, TILE_MONSTER, TILE_OPEN, TILE_MONSTER, TILE_OPEN]] 0 3 = Inr TILE_MONSTER"
  by code_simp

lemma scan_reaches_same_run:
  assumes "scan_reaches i maxRow maxCol s0 s"
  shows "scan_ray i maxRow maxCol (fst s0) (fst (snd s0)) (snd (snd s0))
       = scan_ray i maxRow maxCol (fst s) (fst (snd s)) (snd (snd s))"
  using assms
proof (induction rule: scan_reaches.induct)
  case entered
  show ?case by simp
next
  case (iterated m r c d m')
  then show ?case
    using scan_ray_next [of r maxRow c maxCol i d m m'] by simp
qed

lemma scan_reaches_invariant:
  assumes "scan_reaches i maxRow maxCol (m0, r0 + fst d, c0 + snd d) s"
    and "valid_map m0 maxRow maxCol" and "dir_at i = Inr d"
    and "0 \<le> r0 \<and> r0 < maxRow \<and> 0 \<le> c0 \<and> c0 < maxCol"
  shows "valid_map (fst s) maxRow maxCol
     \<and> ((fst (snd s) - fst d = r0 \<and> snd (snd s) - snd d = c0)
        \<or> (\<exists>t. cell (fst s) (fst (snd s) - fst d) (snd (snd s) - snd d) = Inr t
              \<and> t \<noteq> TILE_PILLAR \<and> t \<noteq> TILE_MONSTER))"
  using assms
proof (induction rule: scan_reaches.induct)
  case entered
  then show ?case by simp
next
  case (iterated m r c d' m')
  have d': "d' = d"
    using iterated.hyps(3) iterated.prems(2) by simp
  have v: "valid_map m maxRow maxCol"
    using iterated.IH iterated.prems by simp
  have x: "scan_cell d m r c = Inr (Some m')"
    using iterated.hyps(4) d' by simp
  have v': "valid_map m' maxRow maxCol"
    using scan_cell_valid [OF x v] .
  from scan_cell_Some [OF x] have "\<exists>t. cell m r c = Inr t \<and> t \<noteq> TILE_PILLAR"
    using scan_cell_pillar [of d m r c] x by auto
  then have "\<exists>t. cell m' r c = Inr t \<and> t \<noteq> TILE_PILLAR \<and> t \<noteq> TILE_MONSTER"
    by (auto simp: scan_cell_cells [OF x])
  then show ?case
    using v' by (simp add: d')
qed

text \<open>
  C3, as amended. Whenever the \<open>while\<close> loop of a direction, entered next to the
  player on a valid map, meets a monster at \<open>(r, c)\<close>, the cell it writes the monster
  into, \<open>(r - d\<^sub>0, c - d\<^sub>1)\<close>, is either the player's own cell or a cell that holds
  neither a pillar nor a monster at that moment. It need not be open: a treasure, an
  amulet, a door or the exit is overwritten.
\<close>

theorem monster_steps_onto_unobstructed_cell:
  assumes "valid_map m maxRow maxCol" and "in_bounds maxRow maxCol p" and "dir_at i = Inr d"
    and "scan_reaches i maxRow maxCol (m, row p + fst d, col p + snd d) (m', r, c)"
    and "r < maxRow \<and> r \<ge> 0 \<and> c < maxCol \<and> c \<ge> 0"
    and "cell m' r c = Inr TILE_MONSTER"
  shows "(r - fst d = row p \<and> c - snd d = col p)
     \<or> (\<exists>t. cell m' (r - fst d) (c - snd d) = Inr t \<and> t \<noteq> TILE_PILLAR \<and> t \<noteq> TILE_MONSTER)"
proof -
  have "0 \<le> row p \<and> row p < maxRow \<and> 0 \<le> col p \<and> col p < maxCol"
    using assms(2) by (simp add: in_bounds_def)
  from scan_reaches_invariant [OF assms(4,1,3) this] show ?thesis
    by simp
qed

theorem monster_steps_onto_unobstructed_cell_witness:
  "scan_reaches 2 1 4 ([[TILE_PLAYER, TILE_OPEN, TILE_MONSTER, TILE_MONSTER]], 0, 1)
       ([[TILE_PLAYER, TILE_MONSTER, TILE_OPEN, TILE_MONSTER]], 0, 3)
   \<and> cell [[TILE_PLAYER, TILE_MONSTER, TILE_OPEN, TILE_MONSTER]] 0 3 = Inr TILE_MONSTER
   \<and> cell [[TILE_PLAYER, TILE_MONSTER, TILE_OPEN, TILE_MONSTER]] 0 2 = Inr TILE_OPEN"
proof -
  let ?p = "\<lparr>row = 0, col = 0, treasure = 0\<rparr>"
  let ?m0 = "[[TILE_PLAYER, TILE_OPEN, TILE_MONSTER, TILE_MONSTER]]"
  let ?m1 = "[[TILE_PLAYER, TILE_MONSTER, TILE_OPEN, TILE_MONSTER]]"
  have d: "dir_at 2 = Inr (0, 1)"
    by (simp add: dir_at_def dir_def)
  have "scan_reaches 2 1 4 (?m0, 0, 1) (?m0, 0, 1)"
    by (rule scan_reaches.entered)
  from scan_reaches.iterated [OF this _ d, of ?m0]
  have "scan_reaches 2 1 4 (?m0, 0, 1) (?m0, 0, 2)"
    by (simp add: scan_cell_def cell_def)
  from scan_reaches.iterated [OF this _ d, of ?m1]
  have reach: "scan_reaches 2 1 4 (?m0, 0, 1) (?m1, 0, 3)"
    by (simp add: scan_cell_def cell_def store_def)
  have mon: "cell ?m1 0 3 = Inr TILE_MONSTER"
    by (simp add: cell_def)
  have "(0 - fst (0::int, 1::int) = row ?p \<and> 3 - snd (0::int, 1::int) = col ?p)
     \<or> (\<exists>t. cell ?m1 (0 - fst (0::int, 1::int)) (3 - snd (0::int, 1::int)) = Inr t
           \<and> t \<noteq> TILE_PILLAR \<and> t \<noteq> TILE_MONSTER)"
    using monster_steps_onto_unobstructed_cell [of ?m0 1 4 ?p 2 "(0, 1)" ?m1 0 3] d reach mon
    by (simp add: valid_map_def in_bounds_def)
  then have "cell ?m1 0 2 = Inr TILE_OPEN"
    by (simp add: cell_def)
  then show ?thesis
    using reach mon by simp
qed

text \<open>
  The claim C3 as the spec states it (the cell is open) fails with a treasure between
  the player and a monster: the loop reaches the monster with the treasure on the cell
  before it, and the call replaces the treasure by the monster.
\<close>

theorem monster_steps_onto_open_cell_counterexample:
  "scan_reaches 2 1 3 ([[TILE_PLAYER, TILE_TREASURE, TILE_MONSTER]], 0, 1)
       ([[TILE_PLAYER, TILE_TREASURE, TILE_MONSTER]], 0, 2)
   \<and> cell [[TILE_PLAYER, TILE_TREASURE, TILE_MONSTER]] 0 2 = Inr TILE_MONSTER
   \<and> cell [[TILE_PLAYER, TILE_TREASURE, TILE_MONSTER]] 0 1 = Inr TILE_TREASURE
   \<and> doMonsterAttack [[TILE_PLAYER, TILE_TREASURE, TILE_MONSTER]] 1 3
         \<lparr>row = 0, col = 0, treasure = 0\<rparr>
       = Inr (False, [[TILE_PLAYER, TILE_MONSTER, TILE_OPEN]], \<lparr>row = 0, col = 0, treasure = 0\<rparr>)"
proof -
  let ?m0 = "[[TILE_PLAYER, TILE_TREASURE, TILE_MONSTER]]"
  have d: "dir_at 2 = Inr (0, 1)"
    by (simp add: dir_at_def dir_def)
  have "scan_reaches 2 1 3 (?m0, 0, 1) (?m0, 0, 1)"
    by (rule scan_reaches.entered)
  from scan_reaches.iterated [OF this _ d, of ?m0]
  have reach: "scan_reaches 2 1 3 (?m0, 0, 1) (?m0, 0, 2)"
    by (simp add: scan_cell_def cell_def)
  have cells: "cell ?m0 0 2 = Inr TILE_MONSTER" "cell ?m0 0 1 = Inr TILE_TREASURE"
    by (simp_all add: cell_def)
  have "doMonsterAttack ?m0 1 3 \<lparr>row = 0, col = 0, treasure = 0\<rparr>
       = Inr (False, [[TILE_PLAYER, TILE_MONSTER, TILE_OPEN]], \<lparr>row = 0, col = 0, treasure = 0\<rparr>)"
    by code_simp
  then show ?thesis
    using reach cells by simp
qed

section \<open>The player tile\<close>

lemma doPlayerMove_moves:
  assumes "\<not> (nextRow \<ge> maxRow \<or> nextRow < 0 \<or> nextCol \<ge> maxCol \<or> nextCol < 0)"
    and "cell m nextRow nextCol = Inr t"
    and "t \<noteq> TILE_PILLAR" and "t \<noteq> TILE_MONSTER" and "\<not> (t = TILE_EXIT \<and> treasure p = 0)"
    and "store m (row p) (col p) TILE_OPEN = Inr m1"
    and "store m1 nextRow nextCol TILE_PLAYER = Inr m2"
  shows "\<exists>st tr. doPlayerMove m maxRow maxCol p nextRow nextCol
      = Inr (st, m2, p\<lparr>treasure := tr, row := nextRow, col := nextCol\<rparr>)"
proof (cases "t = TILE_TREASURE")
  case True
  have "doPlayerMove m maxRow maxCol p nextRow nextCol
      = Inr (STATUS_TREASURE, m2, p\<lparr>treasure := treasure p + 1, row := nextRow, col := nextCol\<rparr>)"
    using assms True by (simp add: doPlayerMove_def Let_def)
  then show ?thesis by blast
next
  case False
  have "\<exists>st. doPlayerMove m maxRow maxCol p nextRow nextCol
      = Inr (st, m2, p\<lparr>treasure := treasure p, row := nextRow, col := nextCol\<rparr>)"
    using assms False by (auto simp: doPlayerMove_def Let_def)
  then show ?thesis by blast
qed

lemma doPlayerMove_keeps_player:
  assumes "valid_map m maxRow maxCol" and "player_on_map m p"
  shows "\<exists>st m' p'. doPlayerMove m maxRow maxCol p nextRow nextCol = Inr (st, m', p')
     \<and> valid_map m' maxRow maxCol \<and> player_on_map m' p'"
proof (cases "nextRow \<ge> maxRow \<or> nextRow < 0 \<or> nextCol \<ge> maxCol \<or> nextCol < 0")
  case True
  then have "doPlayerMove m maxRow maxCol p nextRow nextCol = Inr (STATUS_STAY, m, p)"
    by (simp add: doPlayerMove_def)
  then show ?thesis using assms by blast
next
  case inside: False
  from valid_map_cell [OF assms(1), of nextRow nextCol] inside
  obtain t where t: "cell m nextRow nextCol = Inr t"
    by auto
  show ?thesis
  proof (cases "t = TILE_PILLAR \<or> t = TILE_MONSTER \<or> (t = TILE_EXIT \<and> treasure p = 0)")
    case True
    then have "doPlayerMove m maxRow maxCol p nextRow nextCol = Inr (STATUS_STAY, m, p)"
      using inside t by (auto simp: doPlayerMove_def)
    then show ?thesis using assms by blast
  next
    case False
    have here: "cell m (row p) (col p) = Inr TILE_PLAYER"
      and only: "\<And>a b. cell m a b = Inr TILE_PLAYER \<Longrightarrow> a = row p \<and> b = col p"
      using assms(2) by (simp_all add: player_on_map_def)
    from store_defined [OF here] obtain m1 where m1: "store m (row p) (col p) TILE_OPEN = Inr m1"
      by blast
    have "\<exists>t1. cell m1 nextRow nextCol = Inr t1"
      using cell_store [OF m1, of nextRow nextCol] t by auto
    then obtain m2 where m2: "store m1 nextRow nextCol TILE_PLAYER = Inr m2"
      using store_defined by blast
    from doPlayerMove_moves [OF inside t _ _ _ m1 m2] False obtain st tr
      where run: "doPlayerMove m maxRow maxCol p nextRow nextCol
        = Inr (st, m2, p\<lparr>treasure := tr, row := nextRow, col := nextCol\<rparr>)"
      by blast
    have cells: "cell m2 a b = (if a = nextRow \<and> b = nextCol then Inr TILE_PLAYER
        else if a = row p \<and> b = col p then Inr TILE_OPEN else cell m a b)" for a b
      by (simp add: cell_store [OF m2] cell_store [OF m1])
    have "player_on_map m2 (p\<lparr>treasure := tr, row := nextRow, col := nextCol\<rparr>)"
      unfolding player_on_map_def using only by (auto simp: cells split: if_splits)
    moreover have "valid_map m2 maxRow maxCol"
      using valid_map_store [OF m2 valid_map_store [OF m1 assms(1)]] .
    ultimately show ?thesis
      using run by blast
  qed
qed

lemma on_line_origin: "on_line d r c r c"
  unfolding on_line_def by (rule exI [of _ 0]) simp

lemma doMonsterAttack_no_new_player:
  assumes "valid_map m maxRow maxCol" and "player_on_map m p"
    and "\<And>i d k. dir_at i = Inr d \<Longrightarrow> 1 \<le> k
             \<Longrightarrow> line_cell m' d (row p) (col p) k = attacked m d (row p) (col p) k"
    and "\<And>a b. (\<forall>i d. dir_at i = Inr d \<longrightarrow> \<not> on_line d (row p) (col p) a b)
             \<Longrightarrow> cell m' a b = cell m a b"
    and "cell m' a b = Inr TILE_PLAYER"
  shows "a = row p \<and> b = col p"
proof (cases "\<forall>i d. dir_at i = Inr d \<longrightarrow> \<not> on_line d (row p) (col p) a b")
  case True
  then have "cell m a b = Inr TILE_PLAYER"
    using assms(4) [OF True] assms(5) by simp
  then show ?thesis
    using assms(2) by (simp add: player_on_map_def)
next
  case False
  then obtain i d where d: "dir_at i = Inr d" and on: "on_line d (row p) (col p) a b"
    by blast
  from on obtain k where k: "0 \<le> k"
    and a: "a = row p + k * fst d" and b: "b = col p + k * snd d"
    unfolding on_line_def by blast
  have only: "x = row p \<and> y = col p" if "cell m x y = Inr TILE_PLAYER" for x y
    using assms(2) that by (simp add: player_on_map_def)
  show ?thesis
  proof (cases "k = 0")
    case True
    then show ?thesis using a b by simp
  next
    case False
    then have k1: "1 \<le> k" using k by simp
    have "line_cell m' d (row p) (col p) k = Inr TILE_PLAYER"
      using assms(5) unfolding line_cell_def a b .
    then have "attacked m d (row p) (col p) k = Inr TILE_PLAYER"
      using assms(3) [OF d k1] by simp
    then have "line_cell m d (row p) (col p) k = Inr TILE_PLAYER"
      unfolding attacked_def by (simp split: if_splits)
    then have "cell m a b = Inr TILE_PLAYER"
      unfolding line_cell_def a b .
    then show ?thesis
      by (rule only)
  qed
qed

text \<open>
  C5, as amended. On a valid map where the cell at the player's coordinates holds the
  player tile and no other cell does, every call of \<open>doPlayerMove\<close> returns a state
  in which this holds again, for the coordinates it has set. A call of
  \<open>doMonsterAttack\<close> that returns \<open>false\<close> keeps it as well; one that returns
  \<open>true\<close> leaves a monster on the cell at the player's coordinates and no player tile
  anywhere on the map.
\<close>

theorem player_tile_consistent_unless_captured:
  assumes "valid_map m maxRow maxCol" and "player_on_map m p"
  shows "(\<forall>nextRow nextCol. \<exists>st m' p'.
            doPlayerMove m maxRow maxCol p nextRow nextCol = Inr (st, m', p')
          \<and> valid_map m' maxRow maxCol \<and> player_on_map m' p')
     \<and> (\<exists>captured m'. doMonsterAttack m maxRow maxCol p = Inr (captured, m', p)
          \<and> valid_map m' maxRow maxCol
          \<and> (if captured
              then cell m' (row p) (col p) = Inr TILE_MONSTER
                \<and> (\<forall>a b. cell m' a b \<noteq> Inr TILE_PLAYER)
              else player_on_map m' p))"
proof
  show "\<forall>nextRow nextCol. \<exists>st m' p'.
            doPlayerMove m maxRow maxCol p nextRow nextCol = Inr (st, m', p')
          \<and> valid_map m' maxRow maxCol \<and> player_on_map m' p'"
    using doPlayerMove_keeps_player [OF assms] by blast
next
  have inb: "in_bounds maxRow maxCol p"
    using in_bounds_of_player_on_map [OF assms] .
  from doMonsterAttack_effect [OF assms(1) inb] obtain m'
    where run: "doMonsterAttack m maxRow maxCol p
           = Inr (cell m' (row p) (col p) = Inr TILE_MONSTER, m', p)"
      and v: "valid_map m' maxRow maxCol"
      and A: "\<And>i d k. dir_at i = Inr d \<Longrightarrow> 1 \<le> k
             \<Longrightarrow> line_cell m' d (row p) (col p) k = attacked m d (row p) (col p) k"
      and C: "cell m' (row p) (col p) =
           (if \<exists>i d. dir_at i = Inr d \<and> line_cell m d (row p) (col p) 1 = Inr TILE_MONSTER
            then Inr TILE_MONSTER else cell m (row p) (col p))"
      and D: "\<And>a b. (\<forall>i d. dir_at i = Inr d \<longrightarrow> \<not> on_line d (row p) (col p) a b)
             \<Longrightarrow> cell m' a b = cell m a b"
    by blast
  have only: "a = row p \<and> b = col p" if "cell m' a b = Inr TILE_PLAYER" for a b
    using doMonsterAttack_no_new_player [OF assms A D that] by simp
  have here: "cell m' (row p) (col p) = Inr TILE_PLAYER"
    if "cell m' (row p) (col p) \<noteq> Inr TILE_MONSTER"
  proof -
    have "cell m (row p) (col p) = Inr TILE_PLAYER"
      using assms(2) by (simp add: player_on_map_def)
    then show ?thesis
      using that C by (simp split: if_splits)
  qed
  have "if cell m' (row p) (col p) = Inr TILE_MONSTER
        then cell m' (row p) (col p) = Inr TILE_MONSTER \<and> (\<forall>a b. cell m' a b \<noteq> Inr TILE_PLAYER)
        else player_on_map m' p"
  proof (cases "cell m' (row p) (col p) = Inr TILE_MONSTER")
    case True
    have "cell m' a b \<noteq> Inr TILE_PLAYER" for a b
      using only [of a b] True by auto
    then show ?thesis using True by simp
  next
    case False
    have "player_on_map m' p"
      unfolding player_on_map_def using here [OF False] only by blast
    then show ?thesis
      using False by simp
  qed
  then show "\<exists>captured m'. doMonsterAttack m maxRow maxCol p = Inr (captured, m', p)
          \<and> valid_map m' maxRow maxCol
          \<and> (if captured
              then cell m' (row p) (col p) = Inr TILE_MONSTER
                \<and> (\<forall>a b. cell m' a b \<noteq> Inr TILE_PLAYER)
              else player_on_map m' p)"
    using run v by blast
qed

lemma cell_single_row:
  "cell [cells] a b = Inr t \<longleftrightarrow> a = 0 \<and> 0 \<le> b \<and> b < int (length cells) \<and> cells ! nat b = t"
  by (auto simp: cell_def)

lemma player_on_map_example:
  "player_on_map [[TILE_PLAYER, TILE_OPEN, TILE_MONSTER]] \<lparr>row = 0, col = 0, treasure = 0\<rparr>"
proof -
  have "a = 0 \<and> b = 0"
    if "cell [[TILE_PLAYER, TILE_OPEN, TILE_MONSTER]] a b = Inr TILE_PLAYER" for a b
  proof -
    from that have a: "a = 0" and b: "0 \<le> b" "b < 3"
      and t: "[TILE_PLAYER, TILE_OPEN, TILE_MONSTER] ! nat b = TILE_PLAYER"
      by (simp_all add: cell_single_row)
    from b have "b = 0 \<or> b = 1 \<or> b = 2"
      by linarith
    then show ?thesis
      using a t by auto
  qed
  then show ?thesis
    by (simp add: player_on_map_def cell_single_row)
qed

theorem player_tile_consistent_unless_captured_witness:
  "valid_map [[TILE_PLAYER, TILE_OPEN, TILE_MONSTER]] 1 3
   \<and> player_on_map [[TILE_PLAYER, TILE_OPEN, TILE_MONSTER]] \<lparr>row = 0, col = 0, treasure = 0\<rparr>
   \<and> (\<exists>st m' p'. doPlayerMove [[TILE_PLAYER, TILE_OPEN, TILE_MONSTER]] 1 3
          \<lparr>row = 0, col = 0, treasure = 0\<rparr> 0 1 = Inr (st, m', p') \<and> player_on_map m' p')
   \<and> player_on_map [[TILE_PLAYER, TILE_MONSTER, TILE_OPEN]] \<lparr>row = 0, col = 0, treasure = 0\<rparr>"
proof -
  let ?p = "\<lparr>row = 0, col = 0, treasure = 0\<rparr>"
  let ?m = "[[TILE_PLAYER, TILE_OPEN, TILE_MONSTER]]"
  have v: "valid_map ?m 1 3"
    by (simp add: valid_map_def)
  note claim = player_tile_consistent_unless_captured [OF v player_on_map_example]
  have run: "doMonsterAttack ?m 1 3 ?p = Inr (False, [[TILE_PLAYER, TILE_MONSTER, TILE_OPEN]], ?p)"
    by code_simp
  from claim have "player_on_map [[TILE_PLAYER, TILE_MONSTER, TILE_OPEN]] ?p"
    unfolding run by auto
  moreover from claim have "\<exists>st m' p'. doPlayerMove ?m 1 3 ?p 0 1 = Inr (st, m', p')
      \<and> player_on_map m' p'"
    by blast
  ultimately show ?thesis
    using v player_on_map_example by simp
qed

text \<open>
  The claim C5 as the spec states it fails for \<open>doMonsterAttack\<close> when a monster
  stands next to the player: the monster is written over the player tile.
\<close>

theorem player_tile_consistent_counterexample:
  "valid_map [[TILE_PLAYER, TILE_MONSTER]] 1 2
   \<and> player_on_map [[TILE_PLAYER, TILE_MONSTER]] \<lparr>row = 0, col = 0, treasure = 0\<rparr>
   \<and> doMonsterAttack [[TILE_PLAYER, TILE_MONSTER]] 1 2 \<lparr>row = 0, col = 0, treasure = 0\<rparr>
       = Inr (True, [[TILE_MONSTER, TILE_OPEN]], \<lparr>row = 0, col = 0, treasure = 0\<rparr>)
   \<and> \<not> player_on_map [[TILE_MONSTER, TILE_OPEN]] \<lparr>row = 0, col = 0, treasure = 0\<rparr>"
proof -
  have "a = 0 \<and> b = 0" if "cell [[TILE_PLAYER, TILE_MONSTER]] a b = Inr TILE_PLAYER" for a b
  proof -
    from that have a: "a = 0" and b: "0 \<le> b" "b < 2"
      and t: "[TILE_PLAYER, TILE_MONSTER] ! nat b = TILE_PLAYER"
      by (simp_all add: cell_single_row)
    from b have "b = 0 \<or> b = 1"
      by linarith
    then show ?thesis
      using a t by auto
  qed
  then have "player_on_map [[TILE_PLAYER, TILE_MONSTER]] \<lparr>row = 0, col = 0, treasure = 0\<rparr>"
    by (simp add: player_on_map_def cell_single_row)
  moreover have "doMonsterAttack [[TILE_PLAYER, TILE_MONSTER]] 1 2 \<lparr>row = 0, col = 0, treasure = 0\<rparr>
       = Inr (True, [[TILE_MONSTER, TILE_OPEN]], \<lparr>row = 0, col = 0, treasure = 0\<rparr>)"
    by code_simp
  moreover have "\<not> player_on_map [[TILE_MONSTER, TILE_OPEN]] \<lparr>row = 0, col = 0, treasure = 0\<rparr>"
    by (simp add: player_on_map_def cell_single_row)
  ultimately show ?thesis
    by (simp add: valid_map_def)
qed

section \<open>Allocation and resizing\<close>

text \<open>
  A rule for \<open>for\<close> loops with an invariant, the loops that fill a row and a
  rectangle of cells, and with them what \<open>alloc_map\<close>, \<open>createMap\<close> and
  \<open>resizeMap\<close> return.
\<close>

lemma for_range_rule:
  assumes "I lo s" and "lo \<le> hi"
    and "\<And>i s. lo \<le> i \<Longrightarrow> i < hi \<Longrightarrow> I i s \<Longrightarrow> \<exists>s'. body i s = Inr s' \<and> I (i + 1) s'"
  shows "\<exists>s'. for_range lo hi body s = Inr s' \<and> I hi s'"
proof -
  have "\<exists>s'. for_range i hi body s = Inr s' \<and> I hi s'" if "lo \<le> i" and "i \<le> hi" and "I i s" for i
    using that assms(3)
  proof (induction i hi body s rule: for_range.induct)
    case (1 i n body s)
    show ?case
    proof (cases "i < n")
      case False
      then have "i = n" using "1.prems"(2) by simp
      then show ?thesis using "1.prems"(3) by (simp add: for_range_done)
    next
      case True
      from "1.prems"(4) [OF "1.prems"(1) True "1.prems"(3)] obtain s1
        where s1: "body i s = Inr s1" "I (i + 1) s1" by blast
      have "\<exists>s'. for_range (i + 1) n body s1 = Inr s' \<and> I n s'"
        using "1.IH" [OF True s1(1) _ _ s1(2) "1.prems"(4)] "1.prems"(1) True by simp
      then show ?thesis
        using s1(1) by (simp add: for_range_step [OF True])
    qed
  qed
  then show ?thesis
    using assms(1,2) by simp
qed

lemma fill_row:
  assumes "valid_map mat nr nc" and "0 \<le> c0" and "c0 \<le> c1" and "c1 \<le> nc"
    and "0 \<le> r" and "r < nr"
    and "\<And>c mat'. c0 \<le> c \<Longrightarrow> c < c1 \<Longrightarrow> body c mat' = store mat' r c (g c)"
  shows "\<exists>mat'. for_range c0 c1 body mat = Inr mat' \<and> valid_map mat' nr nc
     \<and> (\<forall>a b. cell mat' a b = (if a = r \<and> c0 \<le> b \<and> b < c1 then Inr (g b) else cell mat a b))"
proof -
  define I where "I c mat' \<longleftrightarrow> valid_map mat' nr nc
     \<and> (\<forall>a b. cell mat' a b = (if a = r \<and> c0 \<le> b \<and> b < c then Inr (g b) else cell mat a b))"
    for c mat'
  have start: "I c0 mat"
    using assms(1) by (auto simp: I_def)
  have step: "\<exists>s'. body c s = Inr s' \<and> I (c + 1) s'" if "c0 \<le> c" and "c < c1" and "I c s" for c s
  proof -
    have v: "valid_map s nr nc"
      and cells: "\<And>a b. cell s a b = (if a = r \<and> c0 \<le> b \<and> b < c then Inr (g b) else cell mat a b)"
      using that(3) by (simp_all add: I_def)
    from valid_map_cell [OF v, of r c] assms(2,4,5,6) that(1,2)
    obtain t where "cell s r c = Inr t"
      by auto
    from store_defined [OF this] obtain s' where s': "store s r c (g c) = Inr s'"
      by blast
    have "I (c + 1) s'"
      unfolding I_def using valid_map_store [OF s' v] that(1,2)
      by (auto simp: cell_store [OF s'] cells)
    then show ?thesis
      using s' assms(7) [OF that(1,2)] by simp
  qed
  from for_range_rule [of I c0 mat c1 body, OF start assms(3) step]
  show ?thesis
    by (simp add: I_def)
qed

lemma fill_rect:
  assumes "valid_map mat nr nc" and "0 \<le> r0" and "r0 \<le> r1" and "r1 \<le> nr"
    and "0 \<le> c0" and "c0 \<le> c1" and "c1 \<le> nc"
    and "\<And>r c mat'. r0 \<le> r \<Longrightarrow> r < r1 \<Longrightarrow> c0 \<le> c \<Longrightarrow> c < c1
           \<Longrightarrow> body r c mat' = store mat' r c (g r c)"
  shows "\<exists>mat'. for_range r0 r1 (\<lambda>r. for_range c0 c1 (body r)) mat = Inr mat'
     \<and> valid_map mat' nr nc
     \<and> (\<forall>a b. cell mat' a b =
          (if r0 \<le> a \<and> a < r1 \<and> c0 \<le> b \<and> b < c1 then Inr (g a b) else cell mat a b))"
proof -
  define I where "I r mat' \<longleftrightarrow> valid_map mat' nr nc
     \<and> (\<forall>a b. cell mat' a b =
          (if r0 \<le> a \<and> a < r \<and> c0 \<le> b \<and> b < c1 then Inr (g a b) else cell mat a b))"
    for r mat'
  have start: "I r0 mat"
    using assms(1) by (auto simp: I_def)
  have step: "\<exists>s'. for_range c0 c1 (body r) s = Inr s' \<and> I (r + 1) s'"
    if "r0 \<le> r" and "r < r1" and "I r s" for r s
  proof -
    have v: "valid_map s nr nc"
      and cells: "\<And>a b. cell s a b =
          (if r0 \<le> a \<and> a < r \<and> c0 \<le> b \<and> b < c1 then Inr (g a b) else cell mat a b)"
      using that(3) by (simp_all add: I_def)
    have r: "0 \<le> r" "r < nr"
      using assms(2,4) that(1,2) by simp_all
    from fill_row [OF v assms(5,6,7) r, of "body r" "g r"] assms(8) [OF that(1,2)]
    obtain s' where s': "for_range c0 c1 (body r) s = Inr s'" and v': "valid_map s' nr nc"
      and cells': "\<And>a b. cell s' a b =
          (if a = r \<and> c0 \<le> b \<and> b < c1 then Inr (g r b) else cell s a b)"
      by blast
    have "I (r + 1) s'"
      unfolding I_def using v' that(1,2) by (auto simp: cells' cells)
    then show ?thesis
      using s' by simp
  qed
  from for_range_rule [of I r0 mat r1 "\<lambda>r. for_range c0 c1 (body r)", OF start assms(3) step]
  show ?thesis
    by (simp add: I_def)
qed

lemma alloc_map_valid:
  assumes "0 \<le> nr" and "0 \<le> nc"
  shows "\<exists>mat. alloc_map u nr nc = Inr mat \<and> valid_map mat nr nc"
proof -
  define I where "I i mat \<longleftrightarrow> int (length mat) = nr
     \<and> (\<forall>j. 0 \<le> j \<and> j < i \<longrightarrow> int (length (mat ! nat j)) = nc)" for i and mat :: grid
  define body where "body i mat = and_then (new_array u nc) (\<lambda>cells. set_row mat i cells)"
    for i and mat :: grid
  have start: "I 0 (replicate (nat nr) [])"
    using assms(1) by (simp add: I_def)
  have step: "\<exists>s'. body i s = Inr s' \<and> I (i + 1) s'" if "0 \<le> i" and "i < nr" and "I i s" for i s
  proof -
    have len: "int (length s) = nr"
      and rows: "\<And>j. 0 \<le> j \<Longrightarrow> j < i \<Longrightarrow> int (length (s ! nat j)) = nc"
      using that(3) by (simp_all add: I_def)
    have run: "body i s = Inr (s[nat i := replicate (nat nc) u])"
      using assms(2) that(1,2) len by (simp add: body_def new_array_def set_row_def)
    have "int (length ((s[nat i := replicate (nat nc) u]) ! nat j)) = nc"
      if j: "0 \<le> j" "j < i + 1" for j
    proof (cases "j = i")
      case True
      have "nat i < length s" using \<open>0 \<le> i\<close> \<open>i < nr\<close> len by linarith
      then show ?thesis using True assms(2) by simp
    next
      case False
      then have "nat j \<noteq> nat i" "j < i" using j \<open>0 \<le> i\<close> by linarith+
      then show ?thesis using rows [OF j(1)] by simp
    qed
    then have "I (i + 1) (s[nat i := replicate (nat nc) u])"
      using len by (simp add: I_def)
    then show ?thesis
      using run by simp
  qed
  from for_range_rule [of I 0 "replicate (nat nr) []" nr body, OF start assms(1) step]
  obtain mat where mat: "for_range 0 nr body (replicate (nat nr) []) = Inr mat"
    and len: "int (length mat) = nr"
    and rows: "\<And>j. 0 \<le> j \<Longrightarrow> j < nr \<Longrightarrow> int (length (mat ! nat j)) = nc"
    by (auto simp: I_def)
  have "int (length (mat ! k)) = nc" if "k < length mat" for k
    using rows [of "int k"] that len by simp
  then have "valid_map mat nr nc"
    using len assms(2) by (simp add: valid_map_def list_all_length)
  moreover have "alloc_map u nr nc = Inr mat"
    using mat assms(1) by (simp add: alloc_map_def new_array_def body_def [abs_def])
  ultimately show ?thesis
    by blast
qed

lemma createMap_returns:
  assumes "0 \<le> maxRow" and "0 \<le> maxCol"
  shows "\<exists>m. createMap u maxRow maxCol = Inr (Ptr m) \<and> valid_map m maxRow maxCol
     \<and> (\<forall>r c. 0 \<le> r \<and> r < maxRow \<and> 0 \<le> c \<and> c < maxCol \<longrightarrow> cell m r c = Inr TILE_OPEN)"
proof -
  from alloc_map_valid [OF assms] obtain mat
    where mat: "alloc_map u maxRow maxCol = Inr mat" and v: "valid_map mat maxRow maxCol"
    by blast
  from fill_rect [OF v order_refl assms(1) order_refl order_refl assms(2) order_refl,
      of "\<lambda>r c mat. store mat r c TILE_OPEN" "\<lambda>r c. TILE_OPEN"]
  obtain m where m: "for_range 0 maxRow (\<lambda>r. for_range 0 maxCol (\<lambda>c mat. store mat r c TILE_OPEN)) mat
        = Inr m"
    and vm: "valid_map m maxRow maxCol"
    and cells: "\<And>a b. cell m a b =
          (if 0 \<le> a \<and> a < maxRow \<and> 0 \<le> b \<and> b < maxCol then Inr TILE_OPEN else cell mat a b)"
    by auto
  have "createMap u maxRow maxCol = Inr (Ptr m)"
    using assms mat m by (simp add: createMap_def)
  then show ?thesis
    using vm cells by simp
qed

lemma int32_id: "- 2147483648 \<le> x \<Longrightarrow> x \<le> 2147483647 \<Longrightarrow> int32 x = x"
  by (simp add: int32_def)

lemma peek_valid:
  assumes "valid_map m maxRow maxCol" and "0 \<le> r" and "r < maxRow" and "0 \<le> c" and "c < maxCol"
  shows "peek (Ptr m) r c = Inr (m ! nat r ! nat c)"
proof -
  from valid_map_cell [OF assms] obtain t where "cell m r c = Inr t"
    by blast
  then show ?thesis
    by (simp add: peek_def cell_Inr_iff)
qed

lemma resizeMap_effect:
  assumes "valid_map m maxRow maxCol"
    and "maxRow * 2 \<le> 2147483647" and "maxCol * 2 \<le> 2147483647"
  shows "\<exists>m'. resizeMap u (Ptr m) maxRow maxCol = Inr (Ptr m', maxRow * 2, maxCol * 2)
     \<and> valid_map m' (maxRow * 2) (maxCol * 2)
     \<and> (\<forall>a b t. cell m a b = Inr t
          \<longrightarrow> cell m' a b = Inr t
            \<and> cell m' a (b + maxCol) = Inr (no_player t)
            \<and> cell m' (a + maxRow) b = Inr (no_player t)
            \<and> cell m' (a + maxRow) (b + maxCol) = Inr (no_player t))"
proof -
  have R: "0 \<le> maxRow" and C: "0 \<le> maxCol" and len: "int (length m) = maxRow"
    using assms(1) by (auto simp: valid_map_def)
  have nrl: "int32 (maxRow * 2) = maxRow * 2" and ncl: "int32 (maxCol * 2) = maxCol * 2"
    using R C assms(2,3) by (simp_all add: int32_id)
  have R2: "0 \<le> maxRow * 2" "maxRow \<le> maxRow * 2" and C2: "0 \<le> maxCol * 2" "maxCol \<le> maxCol * 2"
    using R C by simp_all
  from alloc_map_valid [OF R2(1) C2(1)] obtain mat0
    where mat0: "alloc_map u (maxRow * 2) (maxCol * 2) = Inr mat0"
      and v0: "valid_map mat0 (maxRow * 2) (maxCol * 2)"
    by blast
  note pk = peek_valid [OF assms(1)]
  have "\<exists>mat1. for_range 0 maxRow (\<lambda>r. for_range 0 maxCol (\<lambda>c mat.
           and_then (peek (Ptr m) r c) (\<lambda>t. store mat r c t))) mat0 = Inr mat1
      \<and> valid_map mat1 (maxRow * 2) (maxCol * 2)
      \<and> (\<forall>a b. cell mat1 a b =
          (if 0 \<le> a \<and> a < maxRow \<and> 0 \<le> b \<and> b < maxCol then Inr (m ! nat a ! nat b)
           else cell mat0 a b))"
    by (rule fill_rect [OF v0 order_refl R R2(2) order_refl C C2(2)]) (simp add: pk)
  then obtain mat1
    where s1: "for_range 0 maxRow (\<lambda>r. for_range 0 maxCol (\<lambda>c mat.
           and_then (peek (Ptr m) r c) (\<lambda>t. store mat r c t))) mat0 = Inr mat1"
      and v1: "valid_map mat1 (maxRow * 2) (maxCol * 2)"
      and c1: "\<And>a b. cell mat1 a b =
          (if 0 \<le> a \<and> a < maxRow \<and> 0 \<le> b \<and> b < maxCol then Inr (m ! nat a ! nat b)
           else cell mat0 a b)"
    by blast
  have "\<exists>mat2. for_range 0 maxRow (\<lambda>r. for_range maxCol (maxCol * 2) (\<lambda>c mat.
           and_then (peek (Ptr m) r (c - maxCol)) (\<lambda>t.
             if t \<noteq> TILE_PLAYER then store mat r c t else store mat r c TILE_OPEN))) mat1 = Inr mat2
      \<and> valid_map mat2 (maxRow * 2) (maxCol * 2)
      \<and> (\<forall>a b. cell mat2 a b =
          (if 0 \<le> a \<and> a < maxRow \<and> maxCol \<le> b \<and> b < maxCol * 2
           then Inr (no_player (m ! nat a ! nat (b - maxCol))) else cell mat1 a b))"
    by (rule fill_rect [OF v1 order_refl R R2(2) C C2(2) order_refl])
      (simp add: pk no_player_def)
  then obtain mat2
    where s2: "for_range 0 maxRow (\<lambda>r. for_range maxCol (maxCol * 2) (\<lambda>c mat.
           and_then (peek (Ptr m) r (c - maxCol)) (\<lambda>t.
             if t \<noteq> TILE_PLAYER then store mat r c t else store mat r c TILE_OPEN))) mat1 = Inr mat2"
      and v2: "valid_map mat2 (maxRow * 2) (maxCol * 2)"
      and c2: "\<And>a b. cell mat2 a b =
          (if 0 \<le> a \<and> a < maxRow \<and> maxCol \<le> b \<and> b < maxCol * 2
           then Inr (no_player (m ! nat a ! nat (b - maxCol))) else cell mat1 a b)"
    by blast
  have "\<exists>mat3. for_range maxRow (maxRow * 2) (\<lambda>r. for_range 0 maxCol (\<lambda>c mat.
           and_then (peek (Ptr m) (r - maxRow) c) (\<lambda>t.
             if t \<noteq> TILE_PLAYER then store mat r c t else store mat r c TILE_OPEN))) mat2 = Inr mat3
      \<and> valid_map mat3 (maxRow * 2) (maxCol * 2)
      \<and> (\<forall>a b. cell mat3 a b =
          (if maxRow \<le> a \<and> a < maxRow * 2 \<and> 0 \<le> b \<and> b < maxCol
           then Inr (no_player (m ! nat (a - maxRow) ! nat b)) else cell mat2 a b))"
    by (rule fill_rect [OF v2 R R2(2) order_refl order_refl C C2(2)])
      (simp add: pk no_player_def)
  then obtain mat3
    where s3: "for_range maxRow (maxRow * 2) (\<lambda>r. for_range 0 maxCol (\<lambda>c mat.
           and_then (peek (Ptr m) (r - maxRow) c) (\<lambda>t.
             if t \<noteq> TILE_PLAYER then store mat r c t else store mat r c TILE_OPEN))) mat2 = Inr mat3"
      and v3: "valid_map mat3 (maxRow * 2) (maxCol * 2)"
      and c3: "\<And>a b. cell mat3 a b =
          (if maxRow \<le> a \<and> a < maxRow * 2 \<and> 0 \<le> b \<and> b < maxCol
           then Inr (no_player (m ! nat (a - maxRow) ! nat b)) else cell mat2 a b)"
    by blast
  have "\<exists>mat4. for_range maxRow (maxRow * 2) (\<lambda>r. for_range maxCol (maxCol * 2) (\<lambda>c mat.
           and_then (peek (Ptr m) (r - maxRow) (c - maxCol)) (\<lambda>t.
             if t \<noteq> TILE_PLAYER then store mat r c t else store mat r c TILE_OPEN))) mat3 = Inr mat4
      \<and> valid_map mat4 (maxRow * 2) (maxCol * 2)
      \<and> (\<forall>a b. cell mat4 a b =
          (if maxRow \<le> a \<and> a < maxRow * 2 \<and> maxCol \<le> b \<and> b < maxCol * 2
           then Inr (no_player (m ! nat (a - maxRow) ! nat (b - maxCol))) else cell mat3 a b))"
    by (rule fill_rect [OF v3 R R2(2) order_refl C C2(2) order_refl])
      (simp add: pk no_player_def)
  then obtain mat4
    where s4: "for_range maxRow (maxRow * 2) (\<lambda>r. for_range maxCol (maxCol * 2) (\<lambda>c mat.
           and_then (peek (Ptr m) (r - maxRow) (c - maxCol)) (\<lambda>t.
             if t \<noteq> TILE_PLAYER then store mat r c t else store mat r c TILE_OPEN))) mat3 = Inr mat4"
      and v4: "valid_map mat4 (maxRow * 2) (maxCol * 2)"
      and c4: "\<And>a b. cell mat4 a b =
          (if maxRow \<le> a \<and> a < maxRow * 2 \<and> maxCol \<le> b \<and> b < maxCol * 2
           then Inr (no_player (m ! nat (a - maxRow) ! nat (b - maxCol))) else cell mat3 a b)"
    by blast
  have del: "deleteMap (Ptr m) maxRow = Inr (nullptr, 0)"
    using len by (simp add: deleteMap_def)
  have run: "resizeMap u (Ptr m) maxRow maxCol = Inr (Ptr mat4, maxRow * 2, maxCol * 2)"
    unfolding resizeMap_def Let_def nrl ncl mat0 and_then_Inr s1 s2 s3 s4 del
    by simp
  have cells: "cell mat4 a b = Inr t \<and> cell mat4 a (b + maxCol) = Inr (no_player t)
      \<and> cell mat4 (a + maxRow) b = Inr (no_player t)
      \<and> cell mat4 (a + maxRow) (b + maxCol) = Inr (no_player t)"
    if "cell m a b = Inr t" for a b t
  proof -
    from valid_map_cell_bounds [OF assms(1) that]
    have ab: "0 \<le> a" "a < maxRow" "0 \<le> b" "b < maxCol"
      by simp_all
    have t: "m ! nat a ! nat b = t"
      using that by (simp add: cell_Inr_iff)
    show ?thesis
      using ab t by (simp add: c4 c3 c2 c1)
  qed
  show ?thesis
    using run v4 cells by blast
qed

text \<open>
  C6, as amended. For every valid map of \<open>maxRow\<close> rows and \<open>maxCol\<close> columns whose
  doubled dimensions are representable as \<open>int\<close>, \<open>resizeMap\<close> returns a valid map
  of \<open>2 * maxRow\<close> rows and \<open>2 * maxCol\<close> columns and sets the two dimensions to
  these values. Each cell \<open>(a, b)\<close> of the old map, holding \<open>t\<close>, appears four times:
  as \<open>t\<close> itself in the top-left quadrant, and with the player tile replaced by an
  open cell in the top-right, bottom-left and bottom-right quadrants.
\<close>

theorem resizeMap_quadrants:
  assumes "valid_map m maxRow maxCol"
    and "maxRow * 2 \<le> 2147483647" and "maxCol * 2 \<le> 2147483647"
  shows "\<exists>m'. resizeMap u (Ptr m) maxRow maxCol = Inr (Ptr m', 2 * maxRow, 2 * maxCol)
     \<and> valid_map m' (2 * maxRow) (2 * maxCol)
     \<and> (\<forall>a b t. cell m a b = Inr t
          \<longrightarrow> cell m' a b = Inr t
            \<and> cell m' a (b + maxCol) = Inr (no_player t)
            \<and> cell m' (a + maxRow) b = Inr (no_player t)
            \<and> cell m' (a + maxRow) (b + maxCol) = Inr (no_player t))"
  using resizeMap_effect [OF assms, of u] by (simp add: mult.commute)

theorem resizeMap_quadrants_witness:
  "resizeMap TILE_EXIT (Ptr [[TILE_PLAYER, TILE_MONSTER]]) 1 2
     = Inr (Ptr [[TILE_PLAYER, TILE_MONSTER, TILE_OPEN, TILE_MONSTER],
                 [TILE_OPEN, TILE_MONSTER, TILE_OPEN, TILE_MONSTER]], 2, 4)
   \<and> (\<exists>m'. resizeMap TILE_EXIT (Ptr [[TILE_PLAYER, TILE_MONSTER]]) 1 2 = Inr (Ptr m', 2, 4)
        \<and> cell m' 0 0 = Inr TILE_PLAYER \<and> cell m' 0 2 = Inr TILE_OPEN
        \<and> cell m' 1 0 = Inr TILE_OPEN \<and> cell m' 1 2 = Inr TILE_OPEN)"
proof -
  have v: "valid_map [[TILE_PLAYER, TILE_MONSTER]] 1 2"
    by (simp add: valid_map_def)
  have c: "cell [[TILE_PLAYER, TILE_MONSTER]] 0 0 = Inr TILE_PLAYER"
    by (simp add: cell_def)
  from resizeMap_quadrants [OF v, of TILE_EXIT] obtain m'
    where run: "resizeMap TILE_EXIT (Ptr [[TILE_PLAYER, TILE_MONSTER]]) 1 2 = Inr (Ptr m', 2, 4)"
      and cells: "\<And>a b t. cell [[TILE_PLAYER, TILE_MONSTER]] a b = Inr t
          \<Longrightarrow> cell m' a b = Inr t
            \<and> cell m' a (b + 2) = Inr (no_player t)
            \<and> cell m' (a + 1) b = Inr (no_player t)
            \<and> cell m' (a + 1) (b + 2) = Inr (no_player t)"
    by auto
  have "cell m' 0 0 = Inr TILE_PLAYER \<and> cell m' 0 2 = Inr TILE_OPEN
        \<and> cell m' 1 0 = Inr TILE_OPEN \<and> cell m' 1 2 = Inr TILE_OPEN"
    using cells [OF c] by (simp add: no_player_def)
  moreover have "resizeMap TILE_EXIT (Ptr [[TILE_PLAYER, TILE_MONSTER]]) 1 2
     = Inr (Ptr [[TILE_PLAYER, TILE_MONSTER, TILE_OPEN, TILE_MONSTER],
                 [TILE_OPEN, TILE_MONSTER, TILE_OPEN, TILE_MONSTER]], 2, 4)"
    by code_simp
  ultimately show ?thesis
    using run by blast
qed

text \<open>
  The claim C6 as the spec states it, for every map, fails where doubling leaves the
  range of \<open>int\<close>: for a map of \<open>2\<^sup>3\<^sup>0\<close> empty rows \<open>maxRow * 2\<close> wraps to a
  negative number, and the allocation of the new rows throws.
\<close>

theorem resizeMap_quadrants_counterexample:
  "valid_map (replicate 1073741824 []) 1073741824 0
   \<and> resizeMap TILE_OPEN (Ptr (replicate 1073741824 [])) 1073741824 0 = Inl BadArrayLength"
proof -
  have "valid_map (replicate 1073741824 []) 1073741824 0"
    by (simp add: valid_map_def list_all_length)
  moreover have "resizeMap TILE_OPEN (Ptr (replicate 1073741824 [])) 1073741824 0 = Inl BadArrayLength"
    by (simp add: resizeMap_def int32_def alloc_map_def new_array_def)
  ultimately show ?thesis
    by simp
qed

text \<open>
  C1. The capacity check exists in \<open>loadLevel\<close> only (\<open>load_guard\<close>, see
  \<open>load_guard_overflow\<close> below). \<open>createMap\<close> has none: for 65536 rows of 65536
  cells, \<open>2\<^sup>3\<^sup>2\<close> cells in all, it returns a map. In \<open>resizeMap\<close> the body of the
  \<open>if\<close> is empty: where the condition holds the function goes on and does not return
  a failure, and the condition does not look at the product anyway, so a map of 32768
  by 32768 cells is resized to one of \<open>2\<^sup>3\<^sup>2\<close> cells.
\<close>

theorem no_capacity_check_in_createMap_and_resizeMap:
  "(\<exists>m. createMap TILE_OPEN 65536 65536 = Inr (Ptr m) \<and> valid_map m 65536 65536)
   \<and> resize_guard (Ptr (replicate 1073741824 [])) 1073741824 0
   \<and> resizeMap TILE_OPEN (Ptr (replicate 1073741824 [])) 1073741824 0 \<noteq> Inr (nullptr, 1073741824, 0)
   \<and> (\<exists>m'. resizeMap TILE_OPEN (Ptr (replicate 32768 (replicate 32768 TILE_OPEN))) 32768 32768
         = Inr (Ptr m', 65536, 65536))"
proof -
  have 1: "\<exists>m. createMap TILE_OPEN 65536 65536 = Inr (Ptr m) \<and> valid_map m 65536 65536"
    using createMap_returns [of 65536 65536 TILE_OPEN] by auto
  have 2: "resize_guard (Ptr (replicate 1073741824 [])) 1073741824 0"
    by (simp add: resize_guard_def)
  have 3: "resizeMap TILE_OPEN (Ptr (replicate 1073741824 [])) 1073741824 0
      \<noteq> Inr (nullptr, 1073741824, 0)"
    by (simp add: resizeMap_def int32_def alloc_map_def new_array_def)
  have "valid_map (replicate 32768 (replicate 32768 TILE_OPEN)) 32768 32768"
    by (simp add: valid_map_def list_all_length)
  from resizeMap_effect [OF this, of TILE_OPEN]
  have 4: "\<exists>m'. resizeMap TILE_OPEN (Ptr (replicate 32768 (replicate 32768 TILE_OPEN))) 32768 32768
         = Inr (Ptr m', 65536, 65536)"
    by auto
  show ?thesis
    using 1 2 3 4 by blast
qed

section \<open>Loading a level\<close>

lemma read_int_keeps: "failed f \<Longrightarrow> read_int f x = (x, f)"
  by (simp add: read_int_def)













end
